theory Spec2Isabelle
  imports Complex_Main "HOL-Library.Word" "HOL-Library.Log_Nat"
begin

section \<open>JavaScript numbers\<close>

text \<open>
  A JavaScript number is an IEEE 754 double. A finite double is modelled as the real it
  denotes, and every arithmetic operation of the source as the exact operation followed
  by rounding to the nearest double, a tie going to the even significand, with gradual
  underflow. A Float32Array holds float32 values: reading one gives the same real, and a
  store rounds the double to the nearest float32. NaN and the sign of zero are outside
  the model; an overflow to infinity is modelled where the source can reach one, in
  \<^verbatim>\<open>resampleFloat32\<close>.
\<close>

text \<open>The binary exponent of a positive real: \<open>2 ^ e \<le> x < 2 ^ (e + 1)\<close>.\<close>

definition exponent_of :: "real \<Rightarrow> int" where
  "exponent_of x = (if 1 \<le> x then bitlen \<lfloor>x\<rfloor> - 1 else - bitlen (\<lceil>1 / x\<rceil> - 1))"

text \<open>The nearest integer, a tie going to the even one.\<close>

definition round_even :: "real \<Rightarrow> int" where
  "round_even x =
     (if x - of_int \<lfloor>x\<rfloor> < 1 / 2 then \<lfloor>x\<rfloor>
      else if x - of_int \<lfloor>x\<rfloor> > 1 / 2 then \<lfloor>x\<rfloor> + 1
      else if even \<lfloor>x\<rfloor> then \<lfloor>x\<rfloor> else \<lfloor>x\<rfloor> + 1)"

text \<open>
  Rounding to a binary format with \<open>p\<close> bits of significand and least normal exponent
  \<open>emin\<close>: the result is the nearest multiple of the quantum \<open>2 ^ (e - p + 1)\<close>, where
  \<open>e\<close> is the exponent of the number, and \<open>emin\<close> for the subnormal numbers.
\<close>

definition quantum :: "nat \<Rightarrow> int \<Rightarrow> real \<Rightarrow> real" where
  "quantum p emin x = 2 powi (max (exponent_of \<bar>x\<bar>) emin - int p + 1)"

definition nearest_multiple :: "real \<Rightarrow> real \<Rightarrow> real" where
  "nearest_multiple q y = of_int (round_even (y / q)) * q"

definition round_to :: "nat \<Rightarrow> int \<Rightarrow> real \<Rightarrow> real" where
  "round_to p emin x =
     (if x = 0 then 0 else sgn x * nearest_multiple (quantum p emin x) \<bar>x\<bar>)"

definition fl64 :: "real \<Rightarrow> real" where
  "fl64 = round_to 53 (- 1022)"

definition fl32 :: "real \<Rightarrow> real" where
  "fl32 = round_to 24 (- 126)"

text \<open>
  The operation gives an infinity: the rounded result has an exponent above 1023, that
  is, a magnitude of \<open>2 ^ 1024\<close> or more.
\<close>

definition overflows :: "real \<Rightarrow> bool" where
  "overflows x = (fl64 x \<noteq> 0 \<and> 1024 \<le> exponent_of \<bar>fl64 x\<bar>)"

text \<open>The reals that are finite doubles.\<close>

definition is_double :: "real \<Rightarrow> bool" where
  "is_double x = (fl64 x = x \<and> \<not> overflows x)"

text \<open>\<^verbatim>\<open>a + b\<close>, \<^verbatim>\<open>a * b\<close> and \<^verbatim>\<open>a / b\<close> (with \<open>b\<close> not zero) on doubles.\<close>

definition fadd :: "real \<Rightarrow> real \<Rightarrow> real" where
  "fadd a b = fl64 (a + b)"

definition fmul :: "real \<Rightarrow> real \<Rightarrow> real" where
  "fmul a b = fl64 (a * b)"

definition fdiv :: "real \<Rightarrow> real \<Rightarrow> real" where
  "fdiv a b = fl64 (a / b)"

section \<open>Frame codec\<close>

text \<open>A Float32Array is the list of its elements.\<close>

type_synonym samples = "real list"

text \<open>
  \<^verbatim>\<open>Math.round\<close>: the nearest integer, a tie going up. The result is exact: it is a
  double whenever the argument is.
\<close>

definition js_round :: "real \<Rightarrow> int" where
  "js_round x = \<lfloor>x + 1 / 2\<rfloor>"

subsection \<open>resampleFloat32\<close>

text \<open>
  The inner loop of \<^verbatim>\<open>resampleFloat32\<close>:
  \<^verbatim>\<open>for (let i = offsetBuffer; i < nextOffsetBuffer && i < buffer.length; i++)
       { accum += buffer[i]; count++; }\<close>
  It returns the pair \<open>(accum, count)\<close>; \<open>accum\<close> is a double, and each addition rounds.
  The index starts at 0 or at a rounded positive multiple of the ratio, so it is never
  negative when the body runs.
\<close>

function sum_window :: "samples \<Rightarrow> int \<Rightarrow> int \<Rightarrow> real \<Rightarrow> nat \<Rightarrow> real \<times> nat" where
  "sum_window buffer i nextOffsetBuffer accum count =
     (if i < nextOffsetBuffer \<and> i < int (length buffer)
      then sum_window buffer (i + 1) nextOffsetBuffer (fadd accum (buffer ! nat i)) (count + 1)
      else (accum, count))"
  by pat_completeness auto
termination
  by (relation "measure (\<lambda>(buffer, i, n, accum, count). nat (int (length buffer) - i))") auto

declare sum_window.simps [simp del]

text \<open>
  The outer loop \<^verbatim>\<open>while (offsetResult < newLength)\<close>; \<open>result\<close> is the Float32Array of
  \<open>newLength\<close> zeros that the loop fills by index:
  \<^verbatim>\<open>const nextOffsetBuffer = Math.round((offsetResult + 1) * ratio);\<close> and
  \<^verbatim>\<open>result[offsetResult] = count > 0 ? accum / count : 0;\<close>, a store that rounds the
  quotient to float32.
\<close>

function resample_loop ::
  "samples \<Rightarrow> real \<Rightarrow> nat \<Rightarrow> nat \<Rightarrow> int \<Rightarrow> samples \<Rightarrow> samples" where
  "resample_loop buffer ratio newLength offsetResult offsetBuffer result =
     (if offsetResult < newLength
      then
        (let nextOffsetBuffer = js_round (fmul (real (offsetResult + 1)) ratio);
             ac = sum_window buffer offsetBuffer nextOffsetBuffer 0 0
         in resample_loop buffer ratio newLength (offsetResult + 1) nextOffsetBuffer
              (result[offsetResult :=
                 (if 0 < snd ac then fl32 (fdiv (fst ac) (real (snd ac))) else 0)]))
      else result)"
  by pat_completeness auto
termination
  by (relation "measure (\<lambda>(buffer, ratio, newLength, offsetResult, ob, r). newLength - offsetResult)")
    auto

declare resample_loop.simps [simp del]

text \<open>
  \<^verbatim>\<open>resampleFloat32(buffer, sourceRate, targetRate)\<close>:
  \<^verbatim>\<open>if (sourceRate === targetRate) return buffer;
  const ratio = sourceRate / targetRate;
  const newLength = Math.round(buffer.length / ratio);
  const result = new Float32Array(newLength);\<close>
  \<^verbatim>\<open>new Float32Array(newLength)\<close> throws a RangeError on a negative or infinite length:
  that is the result \<open>None\<close>. An infinite ratio (a target rate of zero, or an overflow
  of the division) gives the length 0, hence the empty array; a ratio of zero gives an
  infinite length, or for the empty buffer the length NaN, which the constructor takes
  as 0. The greatest length of a typed array depends on the engine and is outside the
  model: an allocation that fails for its size also gives a RangeError.
\<close>

definition resampleFloat32 :: "samples \<Rightarrow> real \<Rightarrow> real \<Rightarrow> samples option" where
  "resampleFloat32 buffer sourceRate targetRate =
     (if sourceRate = targetRate then Some buffer
      else if targetRate = 0 \<or> overflows (sourceRate / targetRate) then Some []
      else
        (let ratio = fdiv sourceRate targetRate
         in if ratio = 0 then (if length buffer = 0 then Some [] else None)
            else if overflows (real (length buffer) / ratio) then None
            else
              (let newLength = js_round (fdiv (real (length buffer)) ratio)
               in if newLength < 0 then None
                  else Some (resample_loop buffer ratio (nat newLength) 0 0
                               (replicate (nat newLength) 0)))))"

text \<open>
  The window of output index \<open>i\<close>: the source samples whose index lies from the previous
  boundary up to the boundary \<open>round ((i + 1) * ratio)\<close>, within the input, the product
  being the rounded one; and its average, 0 when the window is empty: the samples are
  added one by one in doubles, and the quotient by their number is stored as a float32.
\<close>

definition rounded_window :: "samples \<Rightarrow> real \<Rightarrow> nat \<Rightarrow> samples" where
  "rounded_window buffer ratio i =
     map (\<lambda>j. buffer ! j)
       [nat (js_round (fmul (real i) ratio)) ..<
        min (nat (js_round (fmul (real (i + 1)) ratio))) (length buffer)]"

definition rounded_average :: "samples \<Rightarrow> real" where
  "rounded_average w =
     (if w = [] then 0 else fl32 (fdiv (foldl fadd 0 w) (real (length w))))"

text \<open>
  A valid sample rate: a double from 3000 Hz to 768000 Hz, the range of the rates of an
  audio context. The rates of the source are the rate of the audio context and the
  configured target rate, 16000 by default.
\<close>

definition valid_rate :: "real \<Rightarrow> bool" where
  "valid_rate r = (is_double r \<and> 3000 \<le> r \<and> r \<le> 768000)"

subsection \<open>floatTo16BitPCM\<close>

text \<open>
  A store into an Int16Array converts the number to a 16-bit integer: the fraction is cut
  off towards zero and the integer wraps modulo \<open>2 ^ 16\<close>. The stored element is a
  16-bit word, read as a signed value by \<open>sint\<close>.
\<close>

definition js_trunc :: "real \<Rightarrow> int" where
  "js_trunc x = (if x < 0 then \<lceil>x\<rceil> else \<lfloor>x\<rfloor>)"

definition to_int16 :: "real \<Rightarrow> 16 word" where
  "to_int16 x = word_of_int (js_trunc x)"

type_synonym pcm = "16 word list"

text \<open>
  The peak loop of the multi-track \<^verbatim>\<open>floatTo16BitPCM\<close>:
  \<^verbatim>\<open>const abs = Math.abs(float32[i]); if (abs > peak) peak = abs;\<close>
\<close>

fun find_peak :: "samples \<Rightarrow> real \<Rightarrow> real" where
  "find_peak [] peak = peak"
| "find_peak (x # xs) peak = find_peak xs (if \<bar>x\<bar> > peak then \<bar>x\<bar> else peak)"

text \<open>
  \<^verbatim>\<open>let gain = 1.0;
  if (peak > 0.00001 && peak < 0.3) { gain = Math.min(50.0, 0.7 / peak); }\<close>
  A decimal literal denotes the double nearest to it.
\<close>

definition auto_gain :: "real \<Rightarrow> real" where
  "auto_gain peak =
     (if peak > fl64 (1 / 100000) \<and> peak < fl64 (3 / 10)
      then min 50 (fdiv (fl64 (7 / 10)) peak) else 1)"

text \<open>\<^verbatim>\<open>if (s > 1) s = 1; else if (s < -1) s = -1;\<close>\<close>

definition clamp_unit :: "real \<Rightarrow> real" where
  "clamp_unit s = (if s > 1 then 1 else if s < - 1 then - 1 else s)"

text \<open>\<^verbatim>\<open>s < 0 ? s * 0x8000 : s * 0x7fff\<close>\<close>

definition scale_int16 :: "real \<Rightarrow> real" where
  "scale_int16 s = (if s < 0 then fmul s 32768 else fmul s 32767)"

text \<open>One round of the conversion loop: \<^verbatim>\<open>let s = float32[i] * gain; ...; out[i] = ...\<close>\<close>

definition pcm_sample :: "real \<Rightarrow> real \<Rightarrow> 16 word" where
  "pcm_sample gain x = to_int16 (scale_int16 (clamp_unit (fmul x gain)))"

text \<open>\<^verbatim>\<open>ParticipantAudioProcessor.floatTo16BitPCM\<close> (multi-track capture).\<close>

definition floatTo16BitPCM :: "samples \<Rightarrow> pcm" where
  "floatTo16BitPCM float32 =
     (let peak = find_peak float32 0;
          gain = auto_gain peak
      in map (pcm_sample gain) float32)"

text \<open>
  \<^verbatim>\<open>floatTo16BitPCM\<close> of the offscreen capture and of the single-stream capture: the same
  clamp and scale, with no gain (\<^verbatim>\<open>let s = float32[i];\<close>).
\<close>

definition floatTo16BitPCM_offscreen :: "samples \<Rightarrow> pcm" where
  "floatTo16BitPCM_offscreen float32 =
     map (\<lambda>x. to_int16 (scale_int16 (clamp_unit x))) float32"

text \<open>\<^verbatim>\<open>pcm.byteLength\<close>: two bytes a sample.\<close>

definition byteLength16 :: "pcm \<Rightarrow> nat" where
  "byteLength16 b = 2 * length b"

section \<open>Per-participant audio processor\<close>

text \<open>
  \<^verbatim>\<open>subarray(begin, end)\<close> and \<^verbatim>\<open>slice(begin)\<close> of a typed array: a negative index counts
  from the end, every index is clamped to the array, and an empty range gives the empty
  array.
\<close>

definition rel_index :: "nat \<Rightarrow> int \<Rightarrow> nat" where
  "rel_index n k = (if k < 0 then nat (max (int n + k) 0) else min (nat k) n)"

definition subarray :: "'a list \<Rightarrow> int \<Rightarrow> int \<Rightarrow> 'a list" where
  "subarray xs b e = take (rel_index (length xs) e - rel_index (length xs) b)
                       (drop (rel_index (length xs) b) xs)"

definition slice_from :: "'a list \<Rightarrow> int \<Rightarrow> 'a list" where
  "slice_from xs b = drop (rel_index (length xs) b) xs"

record processor =
  participantId :: string
  participantName :: string
  track :: string
  targetSampleRate :: real
  bufferQueue :: samples
  bytesSent :: nat
  isRunning :: bool

text \<open>\<^verbatim>\<open>Math.round((this.targetSampleRate * FRAME_MS) / 1000)\<close> with \<^verbatim>\<open>FRAME_MS = 20\<close>.\<close>

definition frame_samples :: "real \<Rightarrow> int" where
  "frame_samples rate = js_round (fdiv (fmul rate 20) 1000)"

text \<open>
  The frame loop of the worklet's message handler:
  \<^verbatim>\<open>let offset = 0;
  while (this.bufferQueue.length - offset >= frameSamples) {
    const frame = this.bufferQueue.subarray(offset, offset + frameSamples);
    const pcm = this.floatTo16BitPCM(frame);
    this.sendPCM(pcm);
    offset += frameSamples;
    this.bytesSent += pcm.byteLength || 0;
  }\<close>
  \<open>sent\<close> collects the buffers handed to \<^verbatim>\<open>sendPCM\<close>, in order. With a frame size of 0 or
  less the loop never ends: the result is \<open>None\<close>.
\<close>

partial_function (option) send_frames ::
  "int \<Rightarrow> samples \<Rightarrow> int \<Rightarrow> nat \<Rightarrow> pcm list \<Rightarrow> (int \<times> nat \<times> pcm list) option" where
  "send_frames frameSamples queue offset sentBytes sent =
     (if int (length queue) - offset \<ge> frameSamples
      then
        (let frame = subarray queue offset (offset + frameSamples);
             pcm = floatTo16BitPCM frame
         in send_frames frameSamples queue (offset + frameSamples)
              (sentBytes + byteLength16 pcm) (sent @ [pcm]))
      else Some (offset, sentBytes, sent))"

declare send_frames.simps [code]

text \<open>What the worklet posts to the main thread.\<close>

datatype worklet_data =
  Debug
| Stats
| Audio samples
| Raw samples
| Other

text \<open>
  \<^verbatim>\<open>const ab = (data && data.type === 'audio') ? data.buffer : data;
  const block = ab instanceof ArrayBuffer ? new Float32Array(ab) : new Float32Array(0);\<close>
\<close>

fun block_of :: "worklet_data \<Rightarrow> samples" where
  "block_of (Audio b) = b"
| "block_of (Raw b) = b"
| "block_of _ = []"

text \<open>
  The audio part of \<^verbatim>\<open>workletNode.port.onmessage\<close>, for a block of samples. The result is
  the processor after the callback and the buffers it sent; \<open>None\<close> when the callback
  does not return. The body runs in \<^verbatim>\<open>try { ... } catch (_e) {}\<close>: the RangeError of
  \<^verbatim>\<open>resampleFloat32\<close> is thrown before anything is written, and leaves the processor as
  it was.
\<close>

definition onAudioBlock ::
  "real \<Rightarrow> int \<Rightarrow> processor \<Rightarrow> samples \<Rightarrow> (processor \<times> pcm list) option" where
  "onAudioBlock actualRate frameSamples p block =
     (if length block = 0 then Some (p, [])
      else
        (case resampleFloat32 block actualRate (targetSampleRate p) of
           None \<Rightarrow> Some (p, [])
         | Some resampled \<Rightarrow>
             (let queue = (if length (bufferQueue p) = 0 then resampled
                           else bufferQueue p @ resampled)
              in case send_frames frameSamples queue 0 (bytesSent p) [] of
                   None \<Rightarrow> None
                 | Some (offset, sentBytes, sent) \<Rightarrow>
                     Some (p\<lparr>bufferQueue := (if offset > 0 then slice_from queue offset
                                              else queue),
                              bytesSent := sentBytes\<rparr>, sent))))"

text \<open>\<^verbatim>\<open>workletNode.port.onmessage\<close>: debug and statistics messages are logged only.\<close>

fun port_onmessage ::
  "real \<Rightarrow> int \<Rightarrow> processor \<Rightarrow> worklet_data \<Rightarrow> (processor \<times> pcm list) option" where
  "port_onmessage actualRate frameSamples p Debug = Some (p, [])"
| "port_onmessage actualRate frameSamples p Stats = Some (p, [])"
| "port_onmessage actualRate frameSamples p d =
     onAudioBlock actualRate frameSamples p (block_of d)"

text \<open>A stream of blocks: one callback after the other, the sent buffers in order.\<close>

fun feed_blocks ::
  "real \<Rightarrow> int \<Rightarrow> processor \<Rightarrow> samples list \<Rightarrow> (processor \<times> pcm list) option" where
  "feed_blocks actualRate frameSamples p [] = Some (p, [])"
| "feed_blocks actualRate frameSamples p (b # bs) =
     (case port_onmessage actualRate frameSamples p (Audio b) of
        None \<Rightarrow> None
      | Some (p', sent) \<Rightarrow>
          (case feed_blocks actualRate frameSamples p' bs of
             None \<Rightarrow> None
           | Some (p'', sent') \<Rightarrow> Some (p'', sent @ sent')))"

text \<open>
  The samples one callback appends to the queue, as the specification counts them: the
  resampled block, and nothing for a block that the handler drops.
\<close>

definition resampled_part :: "real \<Rightarrow> real \<Rightarrow> samples \<Rightarrow> samples" where
  "resampled_part actualRate targetRate block =
     (if length block = 0 then []
      else case resampleFloat32 block actualRate targetRate of
             None \<Rightarrow> [] | Some r \<Rightarrow> r)"

definition resampled_total :: "real \<Rightarrow> real \<Rightarrow> samples list \<Rightarrow> nat" where
  "resampled_total actualRate targetRate blocks =
     sum_list (map (\<lambda>b. length (resampled_part actualRate targetRate b)) blocks)"

text \<open>
  The whole frames of a stream of samples, as the specification words them: consecutive
  slices of the frame size, while a whole frame is left.
\<close>

function whole_frames :: "nat \<Rightarrow> 'a list \<Rightarrow> 'a list list" where
  "whole_frames n xs =
     (if n = 0 \<or> length xs < n then [] else take n xs # whole_frames n (drop n xs))"
  by pat_completeness auto
termination
  by (relation "measure (\<lambda>(n, xs). length xs)") auto

declare whole_frames.simps [simp del]

section \<open>JavaScript maps\<close>

text \<open>
  A \<^verbatim>\<open>Map\<close> is an association list in insertion order, as the iteration of the source
  sees it: \<^verbatim>\<open>set\<close> on a present key replaces the value in place, on a new key it appends;
  \<^verbatim>\<open>delete\<close> removes the entry.
\<close>

type_synonym ('k, 'v) js_map = "('k \<times> 'v) list"

definition map_has :: "'k \<Rightarrow> ('k, 'v) js_map \<Rightarrow> bool" where
  "map_has k m = (k \<in> set (map fst m))"

definition map_get :: "'k \<Rightarrow> ('k, 'v) js_map \<Rightarrow> 'v option" where
  "map_get k m = map_of m k"

fun map_set :: "'k \<Rightarrow> 'v \<Rightarrow> ('k, 'v) js_map \<Rightarrow> ('k, 'v) js_map" where
  "map_set k v [] = [(k, v)]"
| "map_set k v (e # m) = (if fst e = k then (k, v) # m else e # map_set k v m)"

definition map_delete :: "'k \<Rightarrow> ('k, 'v) js_map \<Rightarrow> ('k, 'v) js_map" where
  "map_delete k m = filter (\<lambda>e. fst e \<noteq> k) m"

section \<open>Track correlation engine\<close>

subsection \<open>Track label inspection\<close>

text \<open>
  The three patterns of \<^verbatim>\<open>inspectTrackLabel\<close> are a keyword matched without regard to
  case, one of \<^verbatim>\<open>_\<close> and \<^verbatim>\<open>-\<close>, and the group \<^verbatim>\<open>(\w+)\<close>: one or more of the letters,
  digits and \<^verbatim>\<open>_\<close>, as many as there are. Characters are the 8-bit characters of HOL.
\<close>

definition is_word_char :: "char \<Rightarrow> bool" where
  "is_word_char c =
     (let n = (of_char c :: nat)
      in (48 \<le> n \<and> n \<le> 57) \<or> (65 \<le> n \<and> n \<le> 90) \<or> (97 \<le> n \<and> n \<le> 122) \<or> n = 95)"

definition lower_char :: "char \<Rightarrow> char" where
  "lower_char c =
     (let n = (of_char c :: nat) in if 65 \<le> n \<and> n \<le> 90 then char_of (n + 32) else c)"

text \<open>The keyword at the head of the string, without regard to case: the rest, if so.\<close>

fun strip_keyword :: "string \<Rightarrow> string \<Rightarrow> string option" where
  "strip_keyword [] s = Some s"
| "strip_keyword (k # ks) [] = None"
| "strip_keyword (k # ks) (c # cs) =
     (if lower_char c = lower_char k then strip_keyword ks cs else None)"

text \<open>A match of \<^verbatim>\<open>keyword[_-](\w+)\<close> that starts at the head of the string: its group.\<close>

definition match_here :: "string \<Rightarrow> string \<Rightarrow> string option" where
  "match_here keyword s =
     (case strip_keyword keyword s of
        None \<Rightarrow> None
      | Some [] \<Rightarrow> None
      | Some (d # rest) \<Rightarrow>
          if (d = CHR ''_'' \<or> d = CHR ''-'') \<and> takeWhile is_word_char rest \<noteq> []
          then Some (takeWhile is_word_char rest) else None)"

text \<open>\<^verbatim>\<open>trackLabel.match(pattern)\<close>: the leftmost match; the result is \<^verbatim>\<open>match[1]\<close>.\<close>

fun regex_match :: "string \<Rightarrow> string \<Rightarrow> string option" where
  "regex_match keyword [] = match_here keyword []"
| "regex_match keyword (c # cs) =
     (case match_here keyword (c # cs) of
        Some g \<Rightarrow> Some g
      | None \<Rightarrow> regex_match keyword cs)"

text \<open>The loop \<^verbatim>\<open>for (const pattern of patterns)\<close>: the first pattern that matches.\<close>

fun first_pattern :: "string list \<Rightarrow> string \<Rightarrow> string option" where
  "first_pattern [] trackLabel = None"
| "first_pattern (keyword # keywords) trackLabel =
     (case regex_match keyword trackLabel of
        Some possibleId \<Rightarrow> Some possibleId
      | None \<Rightarrow> first_pattern keywords trackLabel)"

text \<open>\<^verbatim>\<open>inspectTrackLabel(trackLabel, streamId)\<close>; an empty label is falsy.\<close>

definition inspectTrackLabel :: "string \<Rightarrow> string option \<Rightarrow> string option" where
  "inspectTrackLabel trackLabel streamId =
     (if trackLabel = [] then None
      else first_pattern [''participant'', ''user'', ''peer''] trackLabel)"

subsection \<open>Registries and events\<close>

record participant_info =
  info_participantId :: string
  info_name :: "string option"
  info_timestamp :: int
  info_isFallback :: bool

record pending_track =
  pend_timestamp :: int
  pend_trackLabel :: string
  pend_streamId :: "string option"
  pend_fallbackId :: string

text \<open>
  What the page posts with \<^verbatim>\<open>window.postMessage\<close>. In
  \<open>TRACK_PARTICIPANT_MAPPED trackId participantId participantName timestamp isFallback\<close>
  the last field is true for the fallback message only; the other two messages do not
  set it.
\<close>

datatype page_msg =
  MEET_PARTICIPANT_JOINED string "string option" int
| TRACK_PARTICIPANT_MAPPED string string "string option" int bool
| WEBRTC_TRACK_ADDED string string "string option" int
| PAGE_AUDIO_WS_CLOSE "int option" string

text \<open>
  A timer set by \<^verbatim>\<open>setTimeout(..., TRACK_ASSIGNMENT_WINDOW_MS)\<close>: its delay and the
  \<^verbatim>\<open>trackId\<close> and \<^verbatim>\<open>fallbackId\<close> that its callback has captured.
\<close>

record fallback_timer =
  timer_delay :: int
  timer_trackId :: string
  timer_fallbackId :: string

record detector =
  participantsRegistry :: "(string, participant_info) js_map"
  trackToParticipant :: "(string, string) js_map"
  pendingTracks :: "(string, pending_track) js_map"
  timers :: "fallback_timer list"
  outbox :: "page_msg list"

definition TRACK_ASSIGNMENT_WINDOW_MS :: int where
  "TRACK_ASSIGNMENT_WINDOW_MS = 3000"

definition detector_init :: detector where
  "detector_init = \<lparr>participantsRegistry = [], trackToParticipant = [], pendingTracks = [],
                     timers = [], outbox = []\<rparr>"

text \<open>\<^verbatim>\<open>participantsRegistry.get(id)?.name\<close>\<close>

definition registry_name :: "string \<Rightarrow> (string, participant_info) js_map \<Rightarrow> string option" where
  "registry_name pid reg = (case map_get pid reg of None \<Rightarrow> None | Some info \<Rightarrow> info_name info)"

subsection \<open>Timing correlation of pending tracks\<close>

text \<open>
  The loop of \<^verbatim>\<open>assignPendingTracks\<close> over \<^verbatim>\<open>pendingTracks.entries()\<close>, on the state: a
  pending track within the window is mapped and announced, and collected in \<open>assigned\<close>.
  \<open>now\<close> is \<^verbatim>\<open>Date.now()\<close>.
\<close>

fun assign_loop ::
  "int \<Rightarrow> string \<Rightarrow> int \<Rightarrow> (string \<times> pending_track) list \<Rightarrow> detector \<Rightarrow> string list
     \<Rightarrow> detector \<times> string list" where
  "assign_loop now pid joinedAt [] d assigned = (d, assigned)"
| "assign_loop now pid joinedAt ((trackId, trackInfo) # entries) d assigned =
     (let timeDiff = \<bar>pend_timestamp trackInfo - joinedAt\<bar>
      in if timeDiff < TRACK_ASSIGNMENT_WINDOW_MS
         then assign_loop now pid joinedAt entries
                (d\<lparr>trackToParticipant := map_set trackId pid (trackToParticipant d),
                    outbox := outbox d @
                      [TRACK_PARTICIPANT_MAPPED trackId pid
                         (registry_name pid (participantsRegistry d)) now False]\<rparr>)
                (assigned @ [trackId])
         else assign_loop now pid joinedAt entries d assigned)"

text \<open>\<^verbatim>\<open>for (const trackId of assigned) pendingTracks.delete(trackId);\<close>\<close>

fun delete_all :: "'k list \<Rightarrow> ('k, 'v) js_map \<Rightarrow> ('k, 'v) js_map" where
  "delete_all [] m = m"
| "delete_all (k # ks) m = delete_all ks (map_delete k m)"

definition assignPendingTracks :: "int \<Rightarrow> string \<Rightarrow> int \<Rightarrow> detector \<Rightarrow> detector" where
  "assignPendingTracks now pid joinedAt d =
     (case assign_loop now pid joinedAt (pendingTracks d) d [] of
        (d', assigned) \<Rightarrow> d'\<lparr>pendingTracks := delete_all assigned (pendingTracks d')\<rparr>)"

text \<open>
  The body of \<^verbatim>\<open>scanParticipants\<close> for one element whose \<^verbatim>\<open>extractParticipantInfo\<close> has an
  id: a participant not yet in the registry is stored and announced, and the pending
  tracks are tried against it. The scan of the document is the discovery collaborator's.
\<close>

definition participant_detected :: "int \<Rightarrow> participant_info \<Rightarrow> detector \<Rightarrow> detector" where
  "participant_detected now info d =
     (if \<not> map_has (info_participantId info) (participantsRegistry d)
      then assignPendingTracks now (info_participantId info) (info_timestamp info)
             (d\<lparr>participantsRegistry :=
                   map_set (info_participantId info) info (participantsRegistry d),
                 outbox := outbox d @
                   [MEET_PARTICIPANT_JOINED (info_participantId info) (info_name info)
                      (info_timestamp info)]\<rparr>)
      else d)"

subsection \<open>Track events\<close>

text \<open>
  The loop \<^verbatim>\<open>for (const [participantId, info] of participantsRegistry.entries())\<close> of the
  track-added handler: the first participant, in the order of the registry, whose
  timestamp is within the window of the track's.
\<close>

fun timing_match :: "int \<Rightarrow> (string \<times> participant_info) list \<Rightarrow> (string \<times> participant_info) option" where
  "timing_match timestamp [] = None"
| "timing_match timestamp ((pid, info) # entries) =
     (if \<bar>timestamp - info_timestamp info\<bar> < TRACK_ASSIGNMENT_WINDOW_MS
      then Some (pid, info) else timing_match timestamp entries)"

text \<open>
  The test \<^verbatim>\<open>possibleId && participantsRegistry.has(possibleId)\<close> on the result of
  \<^verbatim>\<open>inspectTrackLabel\<close>: the id of a direct match.
\<close>

definition direct_match ::
  "string \<Rightarrow> string option \<Rightarrow> (string, participant_info) js_map \<Rightarrow> string option" where
  "direct_match trackLabel streamId registry =
     (case inspectTrackLabel trackLabel streamId of
        None \<Rightarrow> None
      | Some possibleId \<Rightarrow>
          if possibleId \<noteq> [] \<and> map_has possibleId registry then Some possibleId else None)"

text \<open>
  The handler of \<^verbatim>\<open>WEBRTC_TRACK_ADDED\<close> with the fields
  \<^verbatim>\<open>{ trackId, trackLabel, streamId, timestamp }\<close> of the message: a direct match, or
  else a timing match, or else the track goes to the pending tracks with its fallback id
  and a timer is set.
\<close>

definition on_track_added ::
  "int \<Rightarrow> string \<Rightarrow> string \<Rightarrow> string option \<Rightarrow> int \<Rightarrow> detector \<Rightarrow> detector" where
  "on_track_added now trackId trackLabel streamId timestamp d =
     (case direct_match trackLabel streamId (participantsRegistry d) of
        Some possibleId \<Rightarrow>
          d\<lparr>trackToParticipant := map_set trackId possibleId (trackToParticipant d),
            outbox := outbox d @
              [TRACK_PARTICIPANT_MAPPED trackId possibleId
                 (registry_name possibleId (participantsRegistry d)) now False]\<rparr>
      | None \<Rightarrow>
          (case timing_match timestamp (participantsRegistry d) of
             Some (pid, info) \<Rightarrow>
               d\<lparr>trackToParticipant := map_set trackId pid (trackToParticipant d),
                 outbox := outbox d @
                   [TRACK_PARTICIPANT_MAPPED trackId pid (info_name info) now False]\<rparr>
           | None \<Rightarrow>
               (let fallbackId = ''participant-'' @ take 8 trackId
                in d\<lparr>pendingTracks :=
                       map_set trackId
                         \<lparr>pend_timestamp = timestamp, pend_trackLabel = trackLabel,
                          pend_streamId = streamId, pend_fallbackId = fallbackId\<rparr>
                         (pendingTracks d),
                     timers := timers d @
                       [\<lparr>timer_delay = TRACK_ASSIGNMENT_WINDOW_MS, timer_trackId = trackId,
                         timer_fallbackId = fallbackId\<rparr>]\<rparr>)))"

text \<open>
  The callback of the fallback timer, with the \<^verbatim>\<open>trackId\<close> and \<^verbatim>\<open>fallbackId\<close> it has
  captured. The synthetic participant is numbered by the size of the registry.
\<close>

function dec_string :: "nat \<Rightarrow> string" where
  "dec_string n =
     (if n < 10 then [char_of (48 + n)]
      else dec_string (n div 10) @ [char_of (48 + n mod 10)])"
  by pat_completeness auto
termination
  by (relation "measure (\<lambda>n. n)") auto

declare dec_string.simps [simp del]

definition fallback_timeout :: "int \<Rightarrow> string \<Rightarrow> string \<Rightarrow> detector \<Rightarrow> detector" where
  "fallback_timeout now trackId fallbackId d =
     (if map_has trackId (pendingTracks d)
      then
        (let registry =
               (if \<not> map_has fallbackId (participantsRegistry d)
                then map_set fallbackId
                       \<lparr>info_participantId = fallbackId,
                        info_name = Some (''Participant '' @
                                      dec_string (length (participantsRegistry d) + 1)),
                        info_timestamp = now,
                        info_isFallback = True\<rparr>
                       (participantsRegistry d)
                else participantsRegistry d)
         in d\<lparr>trackToParticipant := map_set trackId fallbackId (trackToParticipant d),
              pendingTracks := map_delete trackId (pendingTracks d),
              participantsRegistry := registry,
              outbox := outbox d @
                [TRACK_PARTICIPANT_MAPPED trackId fallbackId (registry_name fallbackId registry)
                   now True]\<rparr>)
      else d)"

text \<open>The handler of \<^verbatim>\<open>WEBRTC_TRACK_REMOVED\<close>.\<close>

definition on_track_removed :: "string \<Rightarrow> detector \<Rightarrow> detector" where
  "on_track_removed trackId d =
     (let d' = (case map_get trackId (trackToParticipant d) of
                  Some pid \<Rightarrow> if pid \<noteq> []
                              then d\<lparr>trackToParticipant := map_delete trackId (trackToParticipant d)\<rparr>
                              else d
                | None \<Rightarrow> d)
      in d'\<lparr>pendingTracks := map_delete trackId (pendingTracks d')\<rparr>)"

text \<open>
  What can happen to the engine: a track message, a participant found by the discovery,
  or the timer at a position of the timer list running its callback. Each event carries
  the value of \<^verbatim>\<open>Date.now()\<close> at its handling.
\<close>

datatype detector_event =
  TrackAdded int string string "string option" int
| TrackRemoved string
| ParticipantDetected int participant_info
| TimerFired int nat

fun detector_step :: "detector_event \<Rightarrow> detector \<Rightarrow> detector" where
  "detector_step (TrackAdded now trackId trackLabel streamId timestamp) d =
     on_track_added now trackId trackLabel streamId timestamp d"
| "detector_step (TrackRemoved trackId) d = on_track_removed trackId d"
| "detector_step (ParticipantDetected now info) d = participant_detected now info d"
| "detector_step (TimerFired now i) d =
     (if i < length (timers d)
      then fallback_timeout now (timer_trackId (timers d ! i)) (timer_fallbackId (timers d ! i))
             (d\<lparr>timers := take i (timers d) @ drop (Suc i) (timers d)\<rparr>)
      else d)"

fun detector_run :: "detector_event list \<Rightarrow> detector \<Rightarrow> detector" where
  "detector_run [] d = d"
| "detector_run (e # es) d = detector_run es (detector_step e d)"

text \<open>The mapping events for a track among posted messages, and their number.\<close>

fun is_mapping_of :: "string \<Rightarrow> page_msg \<Rightarrow> bool" where
  "is_mapping_of t (TRACK_PARTICIPANT_MAPPED trackId pid name ts fb) = (trackId = t)"
| "is_mapping_of t _ = False"

definition mapping_count :: "string \<Rightarrow> page_msg list \<Rightarrow> nat" where
  "mapping_count t msgs = length (filter (is_mapping_of t) msgs)"

text \<open>The track-added events for a track among the events handled.\<close>

fun is_added :: "string \<Rightarrow> detector_event \<Rightarrow> bool" where
  "is_added t (TrackAdded now trackId trackLabel streamId timestamp) = (trackId = t)"
| "is_added t _ = False"

definition added_count :: "string \<Rightarrow> detector_event list \<Rightarrow> nat" where
  "added_count t es = length (filter (is_added t) es)"

text \<open>
  The pending tracks that \<^verbatim>\<open>assignPendingTracks\<close> finds within the window of a join
  time, in the order of the map.
\<close>

definition window_hits :: "int \<Rightarrow> (string \<times> pending_track) list \<Rightarrow> string list" where
  "window_hits joinedAt entries =
     map fst (filter (\<lambda>e. \<bar>pend_timestamp (snd e) - joinedAt\<bar> < TRACK_ASSIGNMENT_WINDOW_MS)
                entries)"

text \<open>Whether a track is pending, as a number.\<close>

definition pending_weight :: "string \<Rightarrow> detector \<Rightarrow> nat" where
  "pending_weight t d = (if map_has t (pendingTracks d) then 1 else 0)"

section \<open>Processor supervisor\<close>

text \<open>
  An entry of the interceptor's \<^verbatim>\<open>tracksRegistry\<close>: the captured track with its kind and
  label, the id of its stream and the time of capture.
\<close>

record track_info =
  ti_trackId :: string
  ti_kind :: string
  ti_label :: string
  ti_streamId :: "string option"
  ti_capturedAt :: int

text \<open>
  The state of the multi-track capture: the active processors by participant id, the
  tab id of the start command, and the messages posted to the page.
\<close>

record supervisor =
  audioProcessors :: "(string, processor) js_map"
  sup_tabId :: "int option"
  sup_outbox :: "page_msg list"

definition DEFAULT_SAMPLE_RATE :: real where
  "DEFAULT_SAMPLE_RATE = 16000"

text \<open>
  \<^verbatim>\<open>new ParticipantAudioProcessor(participantId, participantName, track,
  DEFAULT_SAMPLE_RATE)\<close>; \<^verbatim>\<open>this.participantName = participantName || participantId\<close>.
\<close>

definition new_processor :: "string \<Rightarrow> string option \<Rightarrow> string \<Rightarrow> processor" where
  "new_processor pid name trackId =
     \<lparr>participantId = pid,
      participantName = (case name of None \<Rightarrow> pid | Some n \<Rightarrow> if n = [] then pid else n),
      track = trackId, targetSampleRate = DEFAULT_SAMPLE_RATE, bufferQueue = [],
      bytesSent = 0, isRunning = False\<rparr>"

text \<open>
  \<^verbatim>\<open>handleRemoteTrack\<close>, up to \<^verbatim>\<open>audioProcessors.set\<close>: a participant that has a processor
  is skipped. \<^verbatim>\<open>processor.start()\<close> runs after it and does not touch the map.
\<close>

definition handleRemoteTrack ::
  "string \<Rightarrow> string option \<Rightarrow> string \<Rightarrow> supervisor \<Rightarrow> supervisor" where
  "handleRemoteTrack pid name trackId s =
     (if map_has pid (audioProcessors s) then s
      else s\<lparr>audioProcessors := map_set pid (new_processor pid name trackId)
                                    (audioProcessors s)\<rparr>)"

text \<open>
  The handler of \<^verbatim>\<open>TRACK_PARTICIPANT_MAPPED\<close>. \<open>registry\<close> is the interceptor's
  \<^verbatim>\<open>tracksRegistry\<close>, \<open>None\<close> when \<^verbatim>\<open>window.__webrtcInterceptor\<close> is not there.
\<close>

definition on_track_mapped ::
  "(string, track_info) js_map option \<Rightarrow> string \<Rightarrow> string \<Rightarrow> string option \<Rightarrow> supervisor
     \<Rightarrow> supervisor" where
  "on_track_mapped registry trackId pid name s =
     (case registry of
        None \<Rightarrow> s
      | Some tracks \<Rightarrow>
          (case map_get trackId tracks of
             None \<Rightarrow> s
           | Some trackInfo \<Rightarrow> handleRemoteTrack pid name (ti_trackId trackInfo) s))"

text \<open>
  The loop of the \<^verbatim>\<open>WEBRTC_TRACK_REMOVED\<close> handler over \<^verbatim>\<open>audioProcessors.entries()\<close>: the
  first processor bound to the track, if any.
\<close>

fun find_processor :: "string \<Rightarrow> (string \<times> processor) list \<Rightarrow> string option" where
  "find_processor trackId [] = None"
| "find_processor trackId ((pid, p) # entries) =
     (if track p = trackId then Some pid else find_processor trackId entries)"

text \<open>\<^verbatim>\<open>processor.stop()\<close> posts \<^verbatim>\<open>AUDIO_WS_CLOSE\<close> for the participant.\<close>

definition on_supervisor_track_removed :: "string \<Rightarrow> supervisor \<Rightarrow> supervisor" where
  "on_supervisor_track_removed trackId s =
     (case find_processor trackId (audioProcessors s) of
        None \<Rightarrow> s
      | Some pid \<Rightarrow>
          s\<lparr>audioProcessors := map_delete pid (audioProcessors s),
            sup_outbox := sup_outbox s @ [PAGE_AUDIO_WS_CLOSE (sup_tabId s) pid]\<rparr>)"

text \<open>
  The retroactive part of the \<^verbatim>\<open>AUDIO_CAPTURE_START_MULTITRACK\<close> handler: one
  \<^verbatim>\<open>WEBRTC_TRACK_ADDED\<close> for every audio track of the interceptor's registry, with
  \<^verbatim>\<open>timestamp: trackInfo.capturedAt || Date.now()\<close>.
\<close>

fun replay_tracks :: "int \<Rightarrow> (string \<times> track_info) list \<Rightarrow> page_msg list" where
  "replay_tracks now [] = []"
| "replay_tracks now ((trackId, trackInfo) # entries) =
     (if ti_kind trackInfo = ''audio''
      then WEBRTC_TRACK_ADDED (ti_trackId trackInfo) (ti_label trackInfo) (ti_streamId trackInfo)
             (if ti_capturedAt trackInfo \<noteq> 0 then ti_capturedAt trackInfo else now)
           # replay_tracks now entries
      else replay_tracks now entries)"

definition on_start_multitrack ::
  "int \<Rightarrow> (string, track_info) js_map option \<Rightarrow> int option \<Rightarrow> supervisor \<Rightarrow> supervisor" where
  "on_start_multitrack now registry tabId s =
     (let s' = s\<lparr>sup_tabId := tabId\<rparr>
      in case registry of
           None \<Rightarrow> s'
         | Some tracks \<Rightarrow> s'\<lparr>sup_outbox := sup_outbox s' @ replay_tracks now tracks\<rparr>)"

text \<open>\<^verbatim>\<open>AUDIO_CAPTURE_STOP_MULTITRACK\<close>: every processor is stopped, the map is cleared.\<close>

definition on_stop_multitrack :: "supervisor \<Rightarrow> supervisor" where
  "on_stop_multitrack s =
     s\<lparr>audioProcessors := [],
       sup_outbox := sup_outbox s @
         map (\<lambda>e. PAGE_AUDIO_WS_CLOSE (sup_tabId s) (participantId (snd e))) (audioProcessors s)\<rparr>"

datatype supervisor_event =
  Mapped "(string, track_info) js_map option" string string "string option"
| Removed string
| StartMultitrack int "(string, track_info) js_map option" "int option"
| StopMultitrack

fun supervisor_step :: "supervisor_event \<Rightarrow> supervisor \<Rightarrow> supervisor" where
  "supervisor_step (Mapped registry trackId pid name) s = on_track_mapped registry trackId pid name s"
| "supervisor_step (Removed trackId) s = on_supervisor_track_removed trackId s"
| "supervisor_step (StartMultitrack now registry tabId) s = on_start_multitrack now registry tabId s"
| "supervisor_step StopMultitrack s = on_stop_multitrack s"

fun supervisor_run :: "supervisor_event list \<Rightarrow> supervisor \<Rightarrow> supervisor" where
  "supervisor_run [] s = s"
| "supervisor_run (e # es) s = supervisor_run es (supervisor_step e s)"

definition supervisor_init :: supervisor where
  "supervisor_init = \<lparr>audioProcessors = [], sup_tabId = None, sup_outbox = []\<rparr>"

text \<open>The processors of a participant in the active set.\<close>

definition processors_of :: "string \<Rightarrow> supervisor \<Rightarrow> processor list" where
  "processors_of pid s = map snd (filter (\<lambda>e. fst e = pid) (audioProcessors s))"

text \<open>
  The track-added messages of a list of posted messages, delivered to the correlation
  engine in order, each handled at the time \<open>now\<close>.
\<close>

fun deliver_added :: "int \<Rightarrow> page_msg list \<Rightarrow> detector \<Rightarrow> detector" where
  "deliver_added now [] d = d"
| "deliver_added now (WEBRTC_TRACK_ADDED trackId trackLabel streamId timestamp # msgs) d =
     deliver_added now msgs (on_track_added now trackId trackLabel streamId timestamp d)"
| "deliver_added now (m # msgs) d = deliver_added now msgs d"

section \<open>Relay connections of the background worker\<close>

subsection \<open>Buffers of a send request\<close>

type_synonym array_buffer = "8 word list"

text \<open>
  The \<^verbatim>\<open>buffer\<close> field of an \<^verbatim>\<open>AUDIO_WS_SEND\<close> message: an ArrayBuffer; a typed-array view
  with its underlying buffer, \<^verbatim>\<open>byteOffset\<close> and \<^verbatim>\<open>byteLength\<close>; a plain object, which is
  what a typed array becomes when the port serializes it, with its properties in order
  (the values are numbers); or no object at all.
\<close>

datatype js_buffer =
  ArrayBuf array_buffer
| TypedView array_buffer nat nat
| PlainObject "(string \<times> nat) list"
| NotObject

text \<open>\<^verbatim>\<open>buffer && buffer.byteLength\<close>, 0 when there is none.\<close>

fun buffer_byteLength :: "js_buffer \<Rightarrow> nat" where
  "buffer_byteLength (ArrayBuf b) = length b"
| "buffer_byteLength (TypedView b off n) = n"
| "buffer_byteLength (PlainObject props) =
     (case map_of props ''byteLength'' of None \<Rightarrow> 0 | Some n \<Rightarrow> n)"
| "buffer_byteLength NotObject = 0"

text \<open>\<^verbatim>\<open>msg.byteLength || (buffer && buffer.byteLength) || 0\<close>; an absent field is 0.\<close>

definition msg_byteLength :: "nat \<Rightarrow> js_buffer \<Rightarrow> nat" where
  "msg_byteLength declared buffer = (if declared \<noteq> 0 then declared else buffer_byteLength buffer)"

text \<open>
  \<^verbatim>\<open>!isNaN(parseInt(k, 10))\<close>: after white space and an optional sign the key starts with a
  decimal digit.
\<close>

definition is_space :: "char \<Rightarrow> bool" where
  "is_space c = (let n = (of_char c :: nat) in (9 \<le> n \<and> n \<le> 13) \<or> n = 32)"

definition is_digit :: "char \<Rightarrow> bool" where
  "is_digit c = (let n = (of_char c :: nat) in 48 \<le> n \<and> n \<le> 57)"

definition parses_as_int :: "string \<Rightarrow> bool" where
  "parses_as_int k =
     (case dropWhile is_space k of
        [] \<Rightarrow> False
      | c # cs \<Rightarrow>
          if c = CHR ''+'' \<or> c = CHR ''-''
          then (case cs of [] \<Rightarrow> False | d # ds \<Rightarrow> is_digit d)
          else is_digit c)"

text \<open>
  The reconstruction of a serialized typed array:
  \<^verbatim>\<open>const uint8 = new Uint8Array(byteLength || keys.length);
  for (let i = 0; i < uint8.length; i++) uint8[i] = buffer[i] || 0;\<close>
\<close>

definition reconstruct :: "nat \<Rightarrow> (string \<times> nat) list \<Rightarrow> array_buffer option" where
  "reconstruct byteLength props =
     (let keys = map fst props;
          isSerializedTypedArray = (length keys > 0 \<and> list_all parses_as_int keys)
      in if isSerializedTypedArray \<or> byteLength > 0
         then Some (map (\<lambda>i. case map_of props (dec_string i) of
                                None \<Rightarrow> 0 | Some v \<Rightarrow> of_nat v)
                      [0 ..< (if byteLength \<noteq> 0 then byteLength else length keys)])
         else None)"

text \<open>
  "Handle different buffer types": the ArrayBuffer that the handler goes on with, or
  \<open>None\<close> where it returns. The view's bytes are \<^verbatim>\<open>view.buffer.slice(start, end)\<close>.
\<close>

fun normalize_buffer :: "nat \<Rightarrow> js_buffer \<Rightarrow> array_buffer option" where
  "normalize_buffer byteLength (ArrayBuf b) = Some b"
| "normalize_buffer byteLength (TypedView b off n) = Some (take n (drop off b))"
| "normalize_buffer byteLength (PlainObject props) = reconstruct byteLength props"
| "normalize_buffer byteLength NotObject = None"

subsection \<open>Connection states\<close>

text \<open>
  A connection state object \<^verbatim>\<open>{ ws, url, ready, queue, _byteCounter }\<close> together with the
  WebSocket made for it in the same handler. Of the socket the model keeps the buffers
  handed to \<^verbatim>\<open>ws.send\<close>, in order, whether \<^verbatim>\<open>ws.close\<close> has been called, and what its
  handlers have captured: the tab id and, in participant mode, the participant id and
  the participant map.
\<close>

record connection =
  conn_url :: string
  ready :: bool
  queue :: "array_buffer list"
  byteCounter :: nat
  ws_sent :: "array_buffer list"
  ws_closed :: bool
  conn_tabId :: int
  conn_participant :: "(string \<times> nat) option"

text \<open>
  The background worker: the connection state objects and the participant maps that
  have been created, each known by its position (objects are shared by reference
  between the maps and the handlers of the sockets), \<^verbatim>\<open>__wsByTabAndParticipant\<close> from tab
  ids to participant maps, the single-stream \<^verbatim>\<open>__wsByTab\<close>, and whether the keep-alive
  runs. A position found in a map is always that of an object created before; the
  functions below leave the state as it is at any other position. \<^verbatim>\<open>ws.send\<close> is called on
  a socket that has opened, where it does not throw.
\<close>

record relay =
  conns :: "connection list"
  participantMaps :: "(string, nat) js_map list"
  wsByTabAndParticipant :: "(int, nat) js_map"
  wsByTab :: "(int, nat) js_map"
  keepAlive :: bool

definition relay_init :: relay where
  "relay_init = \<lparr>conns = [], participantMaps = [], wsByTabAndParticipant = [], wsByTab = [],
                  keepAlive = False\<rparr>"

datatype port_msg =
  AUDIO_WS_OPEN "int option" "string option" string
| AUDIO_WS_SEND "int option" "string option" js_buffer nat
| AUDIO_WS_CLOSE "int option" "string option"
| PING
| UnknownType

text \<open>\<^verbatim>\<open>if (participantId)\<close>: the id is there and not empty.\<close>

fun truthy :: "string option \<Rightarrow> string option" where
  "truthy None = None"
| "truthy (Some s) = (if s = [] then None else Some s)"

definition participant_map :: "relay \<Rightarrow> nat \<Rightarrow> (string, nat) js_map" where
  "participant_map w m = (if m < length (participantMaps w) then participantMaps w ! m else [])"

text \<open>\<^verbatim>\<open>__wsByTabAndParticipant.get(tabId)?.get(participantId)\<close>\<close>

definition participant_state :: "relay \<Rightarrow> int \<Rightarrow> string \<Rightarrow> nat option" where
  "participant_state w tabId pid =
     (case map_get tabId (wsByTabAndParticipant w) of
        None \<Rightarrow> None
      | Some m \<Rightarrow> map_get pid (participant_map w m))"

text \<open>\<^verbatim>\<open>state.ws.close(...)\<close>\<close>

definition close_ws :: "nat \<Rightarrow> relay \<Rightarrow> relay" where
  "close_ws a w =
     (if a < length (conns w) then w\<lparr>conns := (conns w)[a := (conns w ! a)\<lparr>ws_closed := True\<rparr>]\<rparr>
      else w)"

definition new_connection :: "string \<Rightarrow> int \<Rightarrow> (string \<times> nat) option \<Rightarrow> connection" where
  "new_connection url tabId captured =
     \<lparr>conn_url = url, ready = False, queue = [], byteCounter = 0, ws_sent = [],
      ws_closed = False, conn_tabId = tabId, conn_participant = captured\<rparr>"

text \<open>
  \<^verbatim>\<open>if (__wsByTab.size === 0 && __wsByTabAndParticipant.size === 0) stopKeepAlive();\<close>
\<close>

definition stop_keepalive_if_idle :: "relay \<Rightarrow> relay" where
  "stop_keepalive_if_idle w =
     (if length (wsByTab w) = 0 \<and> length (wsByTabAndParticipant w) = 0
      then w\<lparr>keepAlive := False\<rparr> else w)"

text \<open>
  \<^verbatim>\<open>participantMap.delete(participantId);
  if (participantMap.size === 0) __wsByTabAndParticipant.delete(tabId);\<close>
  on the participant map at position \<open>m\<close>.
\<close>

definition forget_participant :: "nat \<Rightarrow> int \<Rightarrow> string \<Rightarrow> relay \<Rightarrow> relay" where
  "forget_participant m tabId pid w =
     (let pm = map_delete pid (participant_map w m);
          w' = w\<lparr>participantMaps := (participantMaps w)[m := pm]\<rparr>
      in if length pm = 0
         then w'\<lparr>wsByTabAndParticipant := map_delete tabId (wsByTabAndParticipant w')\<rparr>
         else w')"

definition closeWsForTab :: "int \<Rightarrow> relay \<Rightarrow> relay" where
  "closeWsForTab tabId w =
     (let w' = (case map_get tabId (wsByTab w) of None \<Rightarrow> w | Some a \<Rightarrow> close_ws a w)
      in w'\<lparr>wsByTab := map_delete tabId (wsByTab w')\<rparr>)"

subsection \<open>handlePortMessage\<close>

text \<open>
  \<^verbatim>\<open>AUDIO_WS_OPEN\<close> in participant mode. \<open>accepts url\<close> says whether \<^verbatim>\<open>new WebSocket(url)\<close>
  returns; where it throws, the handler has made the participant map and closed the
  existing socket, and stores nothing.
\<close>

definition open_participant ::
  "(string \<Rightarrow> bool) \<Rightarrow> int option \<Rightarrow> string \<Rightarrow> string \<Rightarrow> relay \<Rightarrow> relay" where
  "open_participant accepts tabId pid url w =
     (case tabId of
        None \<Rightarrow> w
      | Some tab \<Rightarrow>
          if url = [] then w
          else
            (let m = (case map_get tab (wsByTabAndParticipant w) of
                        None \<Rightarrow> length (participantMaps w) | Some m \<Rightarrow> m);
                 w1 = (case map_get tab (wsByTabAndParticipant w) of
                         None \<Rightarrow> w\<lparr>participantMaps := participantMaps w @ [[]],
                                   wsByTabAndParticipant :=
                                     map_set tab (length (participantMaps w))
                                       (wsByTabAndParticipant w)\<rparr>
                       | Some m \<Rightarrow> w);
                 w2 = (case map_get pid (participant_map w1 m) of
                         None \<Rightarrow> w1 | Some existing \<Rightarrow> close_ws existing w1)
             in if accepts url
                then w2\<lparr>conns := conns w2 @ [new_connection url tab (Some (pid, m))],
                        participantMaps :=
                          (participantMaps w2)[m := map_set pid (length (conns w2))
                                                      (participant_map w2 m)]\<rparr>
                else w2))"

text \<open>\<^verbatim>\<open>AUDIO_WS_OPEN\<close> in single-stream mode.\<close>

definition open_legacy :: "(string \<Rightarrow> bool) \<Rightarrow> int option \<Rightarrow> string \<Rightarrow> relay \<Rightarrow> relay" where
  "open_legacy accepts tabId url w =
     (case tabId of
        None \<Rightarrow> w
      | Some tab \<Rightarrow>
          if url = [] then w
          else
            (let w1 = closeWsForTab tab w
             in if accepts url
                then w1\<lparr>conns := conns w1 @ [new_connection url tab None],
                        wsByTab := map_set tab (length (conns w1)) (wsByTab w1)\<rparr>
                else w1))"

text \<open>
  The end of \<^verbatim>\<open>AUDIO_WS_SEND\<close> in participant mode, on the state found for the participant:
  \<^verbatim>\<open>state._byteCounter = (state._byteCounter || 0) + byteLength;
  if (state.ready) { state.ws.send(buffer); } else { state.queue.push(buffer.slice(0)); }\<close>
\<close>

definition send_or_queue :: "nat \<Rightarrow> array_buffer \<Rightarrow> connection \<Rightarrow> connection" where
  "send_or_queue byteLength buffer c =
     (let c' = c\<lparr>byteCounter := byteCounter c + byteLength\<rparr>
      in if ready c' then c'\<lparr>ws_sent := ws_sent c' @ [buffer]\<rparr>
         else c'\<lparr>queue := queue c' @ [buffer]\<rparr>)"

text \<open>The same in single-stream mode, where the byte counter starts again at 64000.\<close>

definition send_or_queue_legacy :: "nat \<Rightarrow> array_buffer \<Rightarrow> connection \<Rightarrow> connection" where
  "send_or_queue_legacy byteLength buffer c =
     (let n = byteCounter c + byteLength;
          c' = c\<lparr>byteCounter := (if n \<ge> 64000 then 0 else n)\<rparr>
      in if ready c' then c'\<lparr>ws_sent := ws_sent c' @ [buffer]\<rparr>
         else c'\<lparr>queue := queue c' @ [buffer]\<rparr>)"

definition on_send :: "int option \<Rightarrow> string option \<Rightarrow> js_buffer \<Rightarrow> nat \<Rightarrow> relay \<Rightarrow> relay" where
  "on_send tabId participant buffer declared w =
     (case tabId of
        None \<Rightarrow> w
      | Some tab \<Rightarrow>
          (let byteLength = msg_byteLength declared buffer
           in case normalize_buffer byteLength buffer of
                None \<Rightarrow> w
              | Some buf \<Rightarrow>
                  (case truthy participant of
                     Some pid \<Rightarrow>
                       (case participant_state w tab pid of
                          None \<Rightarrow> w
                        | Some a \<Rightarrow>
                            if a < length (conns w)
                            then w\<lparr>conns := (conns w)[a := send_or_queue byteLength buf
                                                            (conns w ! a)]\<rparr>
                            else w)
                   | None \<Rightarrow>
                       (case map_get tab (wsByTab w) of
                          None \<Rightarrow> w
                        | Some a \<Rightarrow>
                            if a < length (conns w)
                            then w\<lparr>conns := (conns w)[a := send_or_queue_legacy byteLength buf
                                                            (conns w ! a)]\<rparr>
                            else w))))"

definition on_close :: "int option \<Rightarrow> string option \<Rightarrow> relay \<Rightarrow> relay" where
  "on_close tabId participant w =
     (case tabId of
        None \<Rightarrow> w
      | Some tab \<Rightarrow>
          (case truthy participant of
             Some pid \<Rightarrow>
               (case map_get tab (wsByTabAndParticipant w) of
                  None \<Rightarrow> w
                | Some m \<Rightarrow>
                    (let w1 = (case map_get pid (participant_map w m) of
                                 None \<Rightarrow> w | Some a \<Rightarrow> close_ws a w)
                     in forget_participant m tab pid w1))
           | None \<Rightarrow> closeWsForTab tab w))"

fun handlePortMessage :: "(string \<Rightarrow> bool) \<Rightarrow> port_msg \<Rightarrow> relay \<Rightarrow> relay" where
  "handlePortMessage accepts (AUDIO_WS_OPEN tabId participant url) w =
     (case truthy participant of
        Some pid \<Rightarrow> open_participant accepts tabId pid url w
      | None \<Rightarrow> open_legacy accepts tabId url w)"
| "handlePortMessage accepts (AUDIO_WS_SEND tabId participant buffer declared) w =
     on_send tabId participant buffer declared w"
| "handlePortMessage accepts (AUDIO_WS_CLOSE tabId participant) w =
     on_close tabId participant w"
| "handlePortMessage accepts PING w = w"
| "handlePortMessage accepts UnknownType w = w"

subsection \<open>Socket events\<close>

text \<open>
  \<^verbatim>\<open>ws.onopen\<close> of the socket of the connection at position \<open>a\<close>:
  \<^verbatim>\<open>state.ready = true; startKeepAlive();
  for (const buf of state.queue) { try { ws.send(buf); } catch (_e) {} }
  state.queue = [];\<close>
\<close>

definition ws_onopen :: "nat \<Rightarrow> relay \<Rightarrow> relay" where
  "ws_onopen a w =
     (if a < length (conns w)
      then w\<lparr>conns := (conns w)[a := (conns w ! a)
                 \<lparr>ready := True,
                  ws_sent := ws_sent (conns w ! a) @ queue (conns w ! a),
                  queue := []\<rparr>],
             keepAlive := True\<rparr>
      else w)"

text \<open>
  \<^verbatim>\<open>ws.onclose\<close>: in participant mode the entry of the captured participant id is deleted
  from the captured participant map, whichever state it holds by then; in single-stream
  mode the entry of the tab is deleted.
\<close>

definition ws_onclose :: "nat \<Rightarrow> relay \<Rightarrow> relay" where
  "ws_onclose a w =
     (if a < length (conns w)
      then
        (case conn_participant (conns w ! a) of
           Some (pid, m) \<Rightarrow>
             stop_keepalive_if_idle (forget_participant m (conn_tabId (conns w ! a)) pid w)
         | None \<Rightarrow>
             stop_keepalive_if_idle
               (w\<lparr>wsByTab := map_delete (conn_tabId (conns w ! a)) (wsByTab w)\<rparr>))
      else w)"

datatype relay_event =
  PortMessage port_msg
| WsOpen nat
| WsClose nat
| WsError nat
| StopCapture int

text \<open>
  One event of the worker. \<^verbatim>\<open>ws.onerror\<close> logs only; the \<^verbatim>\<open>STOP_CAPTURE\<close> and
  \<^verbatim>\<open>START_CAPTURE\<close> runtime messages reach the relay through \<^verbatim>\<open>closeWsForTab\<close>.
\<close>

fun relay_step :: "(string \<Rightarrow> bool) \<Rightarrow> relay_event \<Rightarrow> relay \<Rightarrow> relay" where
  "relay_step accepts (PortMessage msg) w = handlePortMessage accepts msg w"
| "relay_step accepts (WsOpen a) w = ws_onopen a w"
| "relay_step accepts (WsClose a) w = ws_onclose a w"
| "relay_step accepts (WsError a) w = w"
| "relay_step accepts (StopCapture tabId) w = closeWsForTab tabId w"

fun relay_run :: "(string \<Rightarrow> bool) \<Rightarrow> relay_event list \<Rightarrow> relay \<Rightarrow> relay" where
  "relay_run accepts [] w = w"
| "relay_run accepts (e # es) w = relay_run accepts es (relay_step accepts e w)"

subsection \<open>Frames and invariants of the worker\<close>





subsection \<open>The relay of the offscreen capture\<close>

text \<open>
  \<^verbatim>\<open>ws\<close>, \<^verbatim>\<open>wsReady\<close> and \<^verbatim>\<open>pendingBinaryQueue\<close> of the offscreen document; of the socket
  the model keeps the buffers handed to \<^verbatim>\<open>ws.send\<close>, and \<open>None\<close> is \<^verbatim>\<open>ws = null\<close>.
\<close>

record offscreen_relay =
  off_ws :: "pcm list option"
  wsReady :: bool
  pendingBinaryQueue :: "pcm list"

text \<open>
  \<^verbatim>\<open>function sendPCM(buffer) {
    if (!ws) return;
    if (wsReady) ws.send(buffer);
    else pendingBinaryQueue.push(buffer);
  }\<close>
\<close>

definition sendPCM_offscreen :: "pcm \<Rightarrow> offscreen_relay \<Rightarrow> offscreen_relay" where
  "sendPCM_offscreen buffer s =
     (case off_ws s of
        None \<Rightarrow> s
      | Some sent \<Rightarrow>
          if wsReady s then s\<lparr>off_ws := Some (sent @ [buffer])\<rparr>
          else s\<lparr>pendingBinaryQueue := pendingBinaryQueue s @ [buffer]\<rparr>)"

section \<open>Verification of the frame codec\<close>

subsection \<open>Rounding\<close>

lemma two_powi_pos: "0 < (2::real) powi e"
  by simp

lemma two_powi_le: "(2::real) powi a \<le> 2 powi b \<longleftrightarrow> a \<le> b"
proof
  assume le: "(2::real) powi a \<le> 2 powi b"
  show "a \<le> b"
  proof (rule ccontr)
    assume "\<not> a \<le> b"
    then have "b < a" by simp
    then have "(2::real) powi b < 2 powi a"
      by (rule power_int_strict_increasing) simp
    with le show False by simp
  qed
next
  assume "a \<le> b"
  then show "(2::real) powi a \<le> 2 powi b"
    by (rule power_int_increasing) simp
qed

lemma two_powi_nat: "0 \<le> e \<Longrightarrow> (2::real) powi e = of_int (2 ^ nat e)"
  by (simp add: power_int_nonneg_exp)

lemma exponent_of_bounds:
  assumes "0 < x"
  shows "2 powi (exponent_of x) \<le> x" and "x < 2 powi (exponent_of x + 1)"
proof -
  have "2 powi (exponent_of x) \<le> x \<and> x < 2 powi (exponent_of x + 1)"
  proof (cases "1 \<le> x")
    case True
    define m where "m = \<lfloor>x\<rfloor>"
    define k where "k = bitlen m"
    have m: "0 < m"
      using True by (simp add: m_def)
    have k: "1 \<le> k"
      using bitlen_eq_zero_iff [of m] bitlen_nonneg [of m] m by (simp add: k_def)
    have b: "2 ^ nat (k - 1) \<le> m" "m < 2 ^ nat k"
      using bitlen_bounds [OF m] by (simp_all add: k_def)
    have e: "exponent_of x = k - 1"
      using True by (simp add: exponent_of_def m_def k_def)
    have "(2::real) powi (k - 1) = of_int (2 ^ nat (k - 1))"
      using k by (intro two_powi_nat) simp
    also have "\<dots> \<le> of_int m"
      using b(1) by (simp only: of_int_le_iff)
    also have "\<dots> \<le> x"
      by (simp add: m_def)
    finally have lo: "2 powi (k - 1) \<le> x" .
    have "m + 1 \<le> 2 ^ nat k"
      using b(2) by simp
    then have "of_int (m + 1) \<le> (of_int (2 ^ nat k) :: real)"
      by (simp only: of_int_le_iff)
    moreover have "x < of_int (m + 1)"
      by (simp add: m_def)
    moreover have "(2::real) powi k = of_int (2 ^ nat k)"
      using k by (intro two_powi_nat) simp
    ultimately have hi: "x < 2 powi k"
      by simp
    show ?thesis
      using lo hi by (simp add: e)
  next
    case False
    define y where "y = 1 / x"
    have y: "1 < y"
      using False assms by (simp add: y_def)
    define m where "m = \<lceil>y\<rceil> - 1"
    define k where "k = bitlen m"
    have "1 < \<lceil>y\<rceil>"
      using y by simp
    then have m: "0 < m"
      by (simp add: m_def)
    have k: "1 \<le> k"
      using bitlen_eq_zero_iff [of m] bitlen_nonneg [of m] m by (simp add: k_def)
    have b: "2 ^ nat (k - 1) \<le> m" "m < 2 ^ nat k"
      using bitlen_bounds [OF m] by (simp_all add: k_def)
    have e: "exponent_of x = - k"
      using False by (simp add: exponent_of_def m_def k_def y_def)
    have "m + 1 \<le> 2 ^ nat k"
      using b(2) by simp
    then have "of_int (m + 1) \<le> (of_int (2 ^ nat k) :: real)"
      by (simp only: of_int_le_iff)
    moreover have "y \<le> of_int (m + 1)"
      by (simp add: m_def)
    moreover have pk: "(2::real) powi k = of_int (2 ^ nat k)"
      using k by (intro two_powi_nat) simp
    ultimately have "y \<le> 2 powi k"
      by simp
    then have "1 \<le> x * 2 powi k"
      using assms by (simp add: y_def field_simps)
    then have lo: "2 powi (- k) \<le> x"
      using two_powi_pos [of k] by (simp add: power_int_minus field_simps)
    have my: "of_int m < y"
      using ceiling_correct [of y] by (simp add: m_def)
    have "(2::real) powi (k - 1) = of_int (2 ^ nat (k - 1))"
      using k by (intro two_powi_nat) simp
    also have "\<dots> \<le> of_int m"
      using b(1) by (simp only: of_int_le_iff)
    also note my
    finally have py: "2 powi (k - 1) < y" .
    define P :: real where "P = 2 powi (k - 1)"
    have P: "0 < P"
      by (simp add: P_def two_powi_pos)
    have "x * P < 1"
      using py assms by (simp add: y_def P_def [symmetric] field_simps)
    then have xp: "x < 1 / P"
      using P by (simp add: field_simps)
    have "(2::real) powi (- k + 1) = 1 / P"
      unfolding P_def using power_int_minus_divide [of "2::real" "k - 1"] by simp
    then have hi: "x < 2 powi (- k + 1)"
      using xp by (simp only:)
    show ?thesis
      using lo hi by (simp add: e)
  qed
  then show "2 powi (exponent_of x) \<le> x" and "x < 2 powi (exponent_of x + 1)"
    by simp_all
qed

lemma exponent_of_le:
  assumes "0 < x" and "x \<le> 2 powi k"
  shows "exponent_of x \<le> k"
  using exponent_of_bounds(1) [OF assms(1)] assms(2) two_powi_le [of "exponent_of x" k]
  by simp

lemma exponent_of_ge:
  assumes "2 powi k \<le> x"
  shows "k \<le> exponent_of x"
proof -
  have pos: "0 < x"
    by (rule less_le_trans [OF two_powi_pos assms])
  have "(2::real) powi k < 2 powi (exponent_of x + 1)"
    using exponent_of_bounds(2) [OF pos] assms by simp
  then have "\<not> (exponent_of x + 1 \<le> k)"
    using two_powi_le [of "exponent_of x + 1" k] by simp
  then show ?thesis
    by simp
qed

lemma round_even_floor: "\<lfloor>x\<rfloor> \<le> round_even x"
  by (simp add: round_even_def)

lemma round_even_ceiling: "round_even x \<le> \<lceil>x\<rceil>"
proof (cases "x - of_int \<lfloor>x\<rfloor> < 1 / 2")
  case True
  then have "round_even x = \<lfloor>x\<rfloor>"
    by (simp add: round_even_def)
  then show ?thesis
    by simp
next
  case False
  then have "of_int \<lfloor>x\<rfloor> < x"
    by simp
  then have "\<lfloor>x\<rfloor> < \<lceil>x\<rceil>"
    by (simp add: less_ceiling_iff)
  moreover have "round_even x \<le> \<lfloor>x\<rfloor> + 1"
    by (simp add: round_even_def)
  ultimately show ?thesis
    by simp
qed

lemma round_even_le: "x \<le> of_int N \<Longrightarrow> round_even x \<le> N"
  using round_even_ceiling [of x] ceiling_le [of x N] by simp

lemma round_even_ge: "of_int N \<le> x \<Longrightarrow> N \<le> round_even x"
  using round_even_floor [of x] le_floor_iff [of N x] by simp

lemma round_to_zero: "round_to p emin 0 = 0"
  by (simp add: round_to_def)

lemma round_to_minus: "round_to p emin (- x) = - round_to p emin x"
  by (simp add: round_to_def quantum_def sgn_minus)

lemma round_to_pos:
  assumes "0 < x"
  shows "round_to p emin x =
     of_int (round_even (x / 2 powi (max (exponent_of x) emin - int p + 1))) *
       2 powi (max (exponent_of x) emin - int p + 1)"
  using assms by (simp add: round_to_def quantum_def nearest_multiple_def)

lemma round_to_nonneg:
  assumes "0 \<le> x"
  shows "0 \<le> round_to p emin x"
proof (cases "x = 0")
  case True
  then show ?thesis
    by (simp add: round_to_zero)
next
  case False
  then have pos: "0 < x"
    using assms by simp
  define q :: real where "q = 2 powi (max (exponent_of x) emin - int p + 1)"
  have q: "0 < q"
    by (simp add: q_def two_powi_pos)
  have "of_int 0 \<le> x / q"
    using pos q by simp
  then have "0 \<le> round_even (x / q)"
    by (rule round_even_ge)
  then show ?thesis
    unfolding round_to_pos [OF pos] q_def [symmetric] using q by simp
qed

text \<open>A bound that is a multiple of the quantum is kept by the rounding.\<close>

lemma round_to_le_multiple:
  assumes "0 < x" and "x \<le> of_int N * 2 powi (max (exponent_of x) emin - int p + 1)"
  shows "round_to p emin x \<le> of_int N * 2 powi (max (exponent_of x) emin - int p + 1)"
proof -
  define q :: real where "q = 2 powi (max (exponent_of x) emin - int p + 1)"
  have q: "0 < q"
    by (simp add: q_def two_powi_pos)
  have "x / q \<le> of_int N"
    using assms(2) q unfolding q_def [symmetric] by (simp add: field_simps)
  then have "round_even (x / q) \<le> N"
    by (rule round_even_le)
  then have "(of_int (round_even (x / q)) :: real) \<le> of_int N"
    by (simp only: of_int_le_iff)
  then show ?thesis
    unfolding round_to_pos [OF assms(1)] q_def [symmetric] using q by simp
qed

lemma round_to_ge_multiple:
  assumes "0 < x" and "of_int N * 2 powi (max (exponent_of x) emin - int p + 1) \<le> x"
  shows "of_int N * 2 powi (max (exponent_of x) emin - int p + 1) \<le> round_to p emin x"
proof -
  define q :: real where "q = 2 powi (max (exponent_of x) emin - int p + 1)"
  have q: "0 < q"
    by (simp add: q_def two_powi_pos)
  have "of_int N \<le> x / q"
    using assms(2) q unfolding q_def [symmetric] by (simp add: field_simps)
  then have "N \<le> round_even (x / q)"
    by (rule round_even_ge)
  then have "(of_int N :: real) \<le> of_int (round_even (x / q))"
    by (simp only: of_int_le_iff)
  then show ?thesis
    unfolding round_to_pos [OF assms(1)] q_def [symmetric] using q by simp
qed

lemma round_to_le_powi:
  assumes "0 \<le> x" and "x \<le> 2 powi k" and "emin \<le> k" and "0 < p"
  shows "round_to p emin x \<le> 2 powi k"
proof (cases "x = 0")
  case True
  then show ?thesis
    using two_powi_pos [of k] by (simp add: round_to_zero)
next
  case False
  then have pos: "0 < x"
    using assms(1) by simp
  define e where "e = max (exponent_of x) emin"
  have e: "e \<le> k"
    using exponent_of_le [OF pos assms(2)] assms(3) by (simp add: e_def)
  define d where "d = k - e + int p - 1"
  have d: "0 \<le> d"
    using e assms(4) by (simp add: d_def)
  have "(2::real) powi k = 2 powi (d + (e - int p + 1))"
    by (simp add: d_def)
  also have "\<dots> = 2 powi d * 2 powi (e - int p + 1)"
    by (rule power_int_add) simp
  also have "2 powi d = (of_int (2 ^ nat d) :: real)"
    using d by (rule two_powi_nat)
  finally have eq: "(2::real) powi k = of_int (2 ^ nat d) * 2 powi (e - int p + 1)" .
  show ?thesis
    using round_to_le_multiple [OF pos, of "2 ^ nat d" emin p] assms(2)
    unfolding e_def [symmetric] eq [symmetric] by simp
qed

lemma round_to_ge_powi:
  assumes "2 powi k \<le> x" and "emin \<le> k" and "0 < p"
  shows "2 powi k \<le> round_to p emin x"
proof -
  have pos: "0 < x"
    by (rule less_le_trans [OF two_powi_pos assms(1)])
  define e where "e = max (exponent_of x) emin"
  have ke: "k \<le> exponent_of x"
    using assms(1) by (rule exponent_of_ge)
  then have e: "e = exponent_of x"
    using assms(2) by (simp add: e_def)
  have "(2::real) powi e = 2 powi (int p - 1 + (e - int p + 1))"
    by simp
  also have "\<dots> = 2 powi (int p - 1) * 2 powi (e - int p + 1)"
    by (rule power_int_add) simp
  also have "2 powi (int p - 1) = (of_int (2 ^ nat (int p - 1)) :: real)"
    using assms(3) by (intro two_powi_nat) simp
  finally have eq: "(2::real) powi e = of_int (2 ^ nat (int p - 1)) * 2 powi (e - int p + 1)" .
  have "2 powi e \<le> x"
    unfolding e using pos by (rule exponent_of_bounds(1))
  then have "2 powi e \<le> round_to p emin x"
    using round_to_ge_multiple [OF pos, of "2 ^ nat (int p - 1)" emin p]
    unfolding e_def [symmetric] eq [symmetric] by simp
  moreover have "(2::real) powi k \<le> 2 powi e"
    using ke by (simp add: two_powi_le e)
  ultimately show ?thesis
    by simp
qed

lemma round_to_le_int:
  assumes "0 \<le> x" and "x \<le> of_int N" and "x \<le> 2 powi (int p - 1)" and "emin \<le> int p - 1"
  shows "round_to p emin x \<le> of_int N"
proof (cases "x = 0")
  case True
  then show ?thesis
    using assms(2) by (simp add: round_to_zero)
next
  case False
  then have pos: "0 < x"
    using assms(1) by simp
  define e where "e = max (exponent_of x) emin"
  have e: "e \<le> int p - 1"
    using exponent_of_le [OF pos assms(3)] assms(4) by (simp add: e_def)
  define d where "d = int p - 1 - e"
  have d: "0 \<le> d"
    using e by (simp add: d_def)
  have "(1::real) = 2 powi (d + (e - int p + 1))"
    by (simp add: d_def)
  also have "\<dots> = 2 powi d * 2 powi (e - int p + 1)"
    by (rule power_int_add) simp
  also have "2 powi d = (of_int (2 ^ nat d) :: real)"
    using d by (rule two_powi_nat)
  finally have one: "of_int (2 ^ nat d) * 2 powi (e - int p + 1) = (1::real)"
    by simp
  have eq: "of_int (N * 2 ^ nat d) * 2 powi (e - int p + 1) = (of_int N :: real)"
    using one by (simp add: mult.assoc)
  show ?thesis
    using round_to_le_multiple [OF pos, of "N * 2 ^ nat d" emin p] assms(2)
    unfolding e_def [symmetric] eq by simp
qed

lemma fl64_zero: "fl64 0 = 0"
  by (simp add: fl64_def round_to_zero)

lemma fl64_minus: "fl64 (- x) = - fl64 x"
  by (simp add: fl64_def round_to_minus)

lemma fl64_nonneg: "0 \<le> x \<Longrightarrow> 0 \<le> fl64 x"
  by (simp add: fl64_def round_to_nonneg)

lemma fl64_nonpos: "x \<le> 0 \<Longrightarrow> fl64 x \<le> 0"
  using fl64_nonneg [of "- x"] by (simp add: fl64_minus)

lemma fl64_le_powi: "0 \<le> x \<Longrightarrow> x \<le> 2 powi k \<Longrightarrow> - 1022 \<le> k \<Longrightarrow> fl64 x \<le> 2 powi k"
  unfolding fl64_def by (rule round_to_le_powi) simp_all

lemma fl64_ge_powi: "2 powi k \<le> x \<Longrightarrow> - 1022 \<le> k \<Longrightarrow> 2 powi k \<le> fl64 x"
  unfolding fl64_def by (rule round_to_ge_powi) simp_all

lemma fl64_le_int:
  assumes "0 \<le> x" and "x \<le> of_int N" and "x \<le> 2 ^ 52"
  shows "fl64 x \<le> of_int N"
  unfolding fl64_def using assms by (intro round_to_le_int) simp_all

lemma exponent_of_less:
  assumes "0 < x" and "x < 2 powi k"
  shows "exponent_of x < k"
proof -
  have "(2::real) powi (exponent_of x) < 2 powi k"
    using exponent_of_bounds(1) [OF assms(1)] assms(2) by simp
  then have "\<not> (k \<le> exponent_of x)"
    using two_powi_le [of k "exponent_of x"] by simp
  then show ?thesis
    by simp
qed

lemma round_even_of_int: "round_even (of_int n) = n"
  by (simp add: round_even_def)

text \<open>A whole number below \<open>2 ^ p\<close> is a number of the format.\<close>

lemma round_to_of_int:
  assumes "0 < N" and "of_int N < (2::real) powi (int p)" and "emin \<le> 0"
  shows "round_to p emin (of_int N) = of_int N"
proof -
  define x :: real where "x = of_int N"
  have pos: "0 < x"
    using assms(1) by (simp add: x_def)
  have "(2::real) powi 0 \<le> x"
    using assms(1) by (simp add: x_def)
  then have lo: "0 \<le> exponent_of x"
    by (rule exponent_of_ge)
  have hi: "exponent_of x < int p"
    using pos assms(2) unfolding x_def [symmetric] by (rule exponent_of_less)
  define e where "e = max (exponent_of x) emin"
  have e: "e = exponent_of x"
    using lo assms(3) by (simp add: e_def)
  define d where "d = int p - 1 - e"
  have d: "0 \<le> d"
    using hi by (simp add: d_def e)
  define q :: real where "q = 2 powi (e - int p + 1)"
  have q: "0 < q"
    by (simp add: q_def two_powi_pos)
  have "(1::real) = 2 powi (d + (e - int p + 1))"
    by (simp add: d_def)
  also have "\<dots> = 2 powi d * 2 powi (e - int p + 1)"
    by (rule power_int_add) simp
  also have "2 powi d = (of_int (2 ^ nat d) :: real)"
    using d by (rule two_powi_nat)
  finally have one: "of_int (2 ^ nat d) * q = 1"
    by (simp add: q_def)
  then have inv: "1 / q = of_int (2 ^ nat d)"
    using q by (simp add: field_simps)
  have "x / q = x * (1 / q)"
    by simp
  also have "\<dots> = of_int (N * 2 ^ nat d)"
    unfolding inv x_def by simp
  finally have xq: "x / q = of_int (N * 2 ^ nat d)" .
  have "round_to p emin x = of_int (round_even (x / q)) * q"
    unfolding round_to_pos [OF pos] e_def [symmetric] q_def [symmetric] ..
  also have "\<dots> = of_int (N * 2 ^ nat d) * q"
    unfolding xq round_even_of_int ..
  also have "\<dots> = of_int N * (of_int (2 ^ nat d) * q)"
    by simp
  also have "\<dots> = x"
    unfolding one x_def by simp
  finally show ?thesis
    unfolding x_def .
qed

lemma fl64_of_nat:
  assumes "n < 2 ^ 53"
  shows "fl64 (real n) = real n"
proof (cases "n = 0")
  case True
  then show ?thesis
    by (simp add: fl64_zero)
next
  case False
  have "real n < 2 ^ 53"
    using assms by (metis of_nat_less_iff of_nat_numeral of_nat_power)
  then have "real_of_int (int n) < 2 powi (int 53)"
    by simp
  then have "round_to 53 (- 1022) (of_int (int n)) = of_int (int n)"
    using False by (intro round_to_of_int) simp_all
  then show ?thesis
    by (simp add: fl64_def)
qed

lemma fl64_one: "fl64 1 = 1"
  using fl64_of_nat [of 1] by simp

lemma not_overflows:
  assumes "\<bar>fl64 x\<bar> < 2 powi 1024"
  shows "\<not> overflows x"
proof (cases "fl64 x = 0")
  case True
  then show ?thesis
    by (simp add: overflows_def)
next
  case False
  then have "0 < \<bar>fl64 x\<bar>"
    by simp
  then have "exponent_of \<bar>fl64 x\<bar> < 1024"
    using assms by (rule exponent_of_less)
  then show ?thesis
    by (simp add: overflows_def)
qed

text \<open>The ratio of two valid rates and the length it gives are finite and positive.\<close>

lemma valid_ratio:
  assumes "valid_rate s" and "valid_rate t"
  shows "\<not> overflows (s / t)" and "2 powi (- 32) \<le> fdiv s t"
proof -
  have s: "1 \<le> s" "s \<le> 2 ^ 32" and t: "1 \<le> t" "t \<le> 2 ^ 32"
    using assms by (simp_all add: valid_rate_def)
  have "s / t \<le> s / 1"
    using s t by (intro divide_left_mono) simp_all
  then have up: "s / t \<le> 2 powi 32"
    using s by simp
  have "1 / 2 ^ 32 \<le> 1 / t"
    using t by (intro divide_left_mono) simp_all
  also have "\<dots> \<le> s / t"
    using s t by (intro divide_right_mono) simp_all
  finally have lo: "2 powi (- 32) \<le> s / t"
    by (simp add: power_int_minus_divide)
  have nn: "0 \<le> s / t"
    using s t by simp
  have "fl64 (s / t) \<le> 2 powi 32"
    using nn up by (rule fl64_le_powi) simp
  also have "(2::real) powi 32 < 2 powi 1024"
    by (rule power_int_strict_increasing) simp_all
  finally have "\<bar>fl64 (s / t)\<bar> < 2 powi 1024"
    using fl64_nonneg [OF nn] by simp
  then show "\<not> overflows (s / t)"
    by (rule not_overflows)
  show "2 powi (- 32) \<le> fdiv s t"
    unfolding fdiv_def using lo by (rule fl64_ge_powi) simp
qed

lemma valid_length:
  assumes "2 powi (- 32) \<le> ratio" and "n < (2::nat) ^ 32"
  shows "\<not> overflows (real n / ratio)" and "0 \<le> fdiv (real n) ratio"
proof -
  have r: "0 < ratio"
    by (rule less_le_trans [OF two_powi_pos assms(1)])
  have n: "real n \<le> 2 ^ 32"
    using assms(2) by (metis less_imp_le of_nat_le_iff of_nat_numeral of_nat_power)
  have "1 / ratio \<le> 1 / 2 powi (- 32)"
    using assms(1) by (intro divide_left_mono) (simp_all add: two_powi_pos r)
  then have inv: "1 / ratio \<le> 2 ^ 32"
    by (simp add: power_int_minus_divide)
  have "real n / ratio = real n * (1 / ratio)"
    by simp
  also have "\<dots> \<le> 2 ^ 32 * 2 ^ 32"
    using n inv r by (intro mult_mono) simp_all
  finally have up: "real n / ratio \<le> 2 powi 64"
    by simp
  have nn: "0 \<le> real n / ratio"
    using r by simp
  have "fl64 (real n / ratio) \<le> 2 powi 64"
    using nn up by (rule fl64_le_powi) simp
  also have "(2::real) powi 64 < 2 powi 1024"
    by (rule power_int_strict_increasing) simp_all
  finally have "\<bar>fl64 (real n / ratio)\<bar> < 2 powi 1024"
    using fl64_nonneg [OF nn] by simp
  then show "\<not> overflows (real n / ratio)"
    by (rule not_overflows)
  show "0 \<le> fdiv (real n) ratio"
    unfolding fdiv_def using nn by (rule fl64_nonneg)
qed

lemma valid_rate_of_nat:
  assumes "3000 \<le> n" and "n \<le> 768000"
  shows "valid_rate (real n)"
proof -
  have "n < 2 ^ 53"
    using assms(2) by (rule le_less_trans) simp
  then have d: "fl64 (real n) = real n"
    by (rule fl64_of_nat)
  have le: "real n \<le> 768000" and ge: "3000 \<le> real n"
    using assms by simp_all
  have "real n \<le> 2 powi 32"
    using le by simp
  also have "(2::real) powi 32 < 2 powi 1024"
    by (rule power_int_strict_increasing) simp_all
  finally have "\<bar>fl64 (real n)\<bar> < 2 powi 1024"
    using d by simp
  then have "\<not> overflows (real n)"
    by (rule not_overflows)
  then show ?thesis
    using d le ge by (simp add: valid_rate_def is_double_def)
qed

text \<open>
  A rounding is decided by the exponent of the number and by the multiple of the quantum
  that lies less than half a quantum away.
\<close>

lemma round_even_eqI:
  assumes "\<bar>x - of_int m\<bar> < 1 / 2"
  shows "round_even x = m"
proof -
  have lo: "of_int m - 1 / 2 < x" and hi: "x < of_int m + 1 / 2"
    using assms by linarith+
  show ?thesis
  proof (cases "of_int m \<le> x")
    case True
    then have f: "\<lfloor>x\<rfloor> = m"
      using hi by (intro floor_unique) simp_all
    show ?thesis
      using hi by (simp add: round_even_def f)
  next
    case False
    then have f: "\<lfloor>x\<rfloor> = m - 1"
      using lo by (intro floor_unique) simp_all
    show ?thesis
      using lo False by (simp add: round_even_def f)
  qed
qed

lemma round_to_eqI:
  assumes "2 powi e \<le> \<bar>x\<bar>" and "\<bar>x\<bar> < 2 powi (e + 1)" and "emin \<le> e"
    and "\<bar>\<bar>x\<bar> / 2 powi (e - int p + 1) - of_int m\<bar> < 1 / 2"
    and "y = sgn x * (of_int m * 2 powi (e - int p + 1))"
  shows "round_to p emin x = y"
proof -
  have pos: "0 < \<bar>x\<bar>"
    by (rule less_le_trans [OF two_powi_pos assms(1)])
  have "e \<le> exponent_of \<bar>x\<bar>"
    using assms(1) by (rule exponent_of_ge)
  moreover have "exponent_of \<bar>x\<bar> < e + 1"
    using pos assms(2) by (rule exponent_of_less)
  ultimately have e: "exponent_of \<bar>x\<bar> = e"
    by simp
  have q: "quantum p emin x = 2 powi (e - int p + 1)"
    using assms(3) by (simp add: quantum_def e)
  have "round_even (\<bar>x\<bar> / 2 powi (e - int p + 1)) = m"
    using assms(4) by (rule round_even_eqI)
  then show ?thesis
    using pos by (simp add: round_to_def q nearest_multiple_def assms(5))
qed

lemma fl64_eqI:
  assumes "2 powi e \<le> \<bar>x\<bar>" and "\<bar>x\<bar> < 2 powi (e + 1)" and "- 1022 \<le> e"
    and "\<bar>\<bar>x\<bar> / 2 powi (e - 52) - of_int m\<bar> < 1 / 2"
    and "y = sgn x * (of_int m * 2 powi (e - 52))"
  shows "fl64 x = y"
  unfolding fl64_def using assms by (intro round_to_eqI [where e = e and m = m]) simp_all

lemma fl32_eqI:
  assumes "2 powi e \<le> \<bar>x\<bar>" and "\<bar>x\<bar> < 2 powi (e + 1)" and "- 126 \<le> e"
    and "\<bar>\<bar>x\<bar> / 2 powi (e - 23) - of_int m\<bar> < 1 / 2"
    and "y = sgn x * (of_int m * 2 powi (e - 23))"
  shows "fl32 x = y"
  unfolding fl32_def using assms by (intro round_to_eqI [where e = e and m = m]) simp_all

lemma fl32_zero: "fl32 0 = 0"
  by (simp add: fl32_def round_to_zero)

subsection \<open>Resampling\<close>

lemma js_round_of_int: "js_round (of_int k) = k"
  by (simp add: js_round_def)

lemma js_round_of_nat: "js_round (real n) = int n"
  using js_round_of_int [of "int n"] by simp

lemma js_round_nonneg: "0 \<le> x \<Longrightarrow> 0 \<le> js_round x"
  by (simp add: js_round_def)

lemma sum_window_closed:
  "0 \<le> i \<Longrightarrow>
   sum_window buffer i n accum count =
     (foldl fadd accum (map (\<lambda>j. buffer ! j) [nat i ..< min (nat n) (length buffer)]),
      count + (min (nat n) (length buffer) - nat i))"
proof (induction buffer i n accum count rule: sum_window.induct)
  case (1 buffer i n accum count)
  show ?case
  proof (cases "i < n \<and> i < int (length buffer)")
    case True
    then have lt: "nat i < min (nat n) (length buffer)"
      using "1.prems" by auto
    have step: "sum_window buffer i n accum count =
        sum_window buffer (i + 1) n (fadd accum (buffer ! nat i)) (count + 1)"
      using True by (subst sum_window.simps) simp
    have ih: "sum_window buffer (i + 1) n (fadd accum (buffer ! nat i)) (count + 1) =
        (foldl fadd (fadd accum (buffer ! nat i))
           (map (\<lambda>j. buffer ! j) [nat (i + 1) ..< min (nat n) (length buffer)]),
         count + 1 + (min (nat n) (length buffer) - nat (i + 1)))"
      using "1.IH" [OF True] "1.prems" by simp
    have suc: "nat (i + 1) = Suc (nat i)"
      using "1.prems" by simp
    have up: "[nat i ..< min (nat n) (length buffer)] =
        nat i # [Suc (nat i) ..< min (nat n) (length buffer)]"
      using lt by (simp add: upt_conv_Cons)
    have cnt: "count + 1 + (min (nat n) (length buffer) - Suc (nat i)) =
        count + (min (nat n) (length buffer) - nat i)"
      using Suc_diff_Suc [OF lt] by simp
    show ?thesis
      unfolding step ih suc up cnt by simp
  next
    case False
    then have "min (nat n) (length buffer) \<le> nat i"
      using "1.prems" by auto
    then have "[nat i ..< min (nat n) (length buffer)] = []"
      by simp
    moreover have "sum_window buffer i n accum count = (accum, count)"
      by (subst sum_window.simps) (use False in auto)
    ultimately show ?thesis
      using \<open>min (nat n) (length buffer) \<le> nat i\<close> by simp
  qed
qed

lemma sum_window_spec:
  assumes "0 \<le> ratio"
  shows "sum_window buffer (js_round (fmul (real i) ratio))
           (js_round (fmul (real (i + 1)) ratio)) 0 0 =
     (foldl fadd 0 (rounded_window buffer ratio i), length (rounded_window buffer ratio i))"
proof -
  have "0 \<le> fmul (real i) ratio"
    unfolding fmul_def using assms by (intro fl64_nonneg) simp
  then have "0 \<le> js_round (fmul (real i) ratio)"
    by (rule js_round_nonneg)
  then show ?thesis
    by (simp add: sum_window_closed rounded_window_def)
qed

lemma resample_loop_spec:
  assumes "0 \<le> ratio" and "offsetBuffer = js_round (fmul (real offsetResult) ratio)"
  shows "length (resample_loop buffer ratio newLength offsetResult offsetBuffer result) =
           length result \<and>
         (\<forall>i < length result.
            resample_loop buffer ratio newLength offsetResult offsetBuffer result ! i =
              (if offsetResult \<le> i \<and> i < newLength
               then rounded_average (rounded_window buffer ratio i) else result ! i))"
  using assms
proof (induction buffer ratio newLength offsetResult offsetBuffer result
    rule: resample_loop.induct)
  case (1 buffer ratio newLength offsetResult offsetBuffer result)
  show ?case
  proof (cases "offsetResult < newLength")
    case False
    then show ?thesis
      by (subst (1 2) resample_loop.simps) simp
  next
    case True
    define nxt where "nxt = js_round (fmul (real (offsetResult + 1)) ratio)"
    define ac where "ac = sum_window buffer offsetBuffer nxt 0 0"
    define v where "v = (if 0 < snd ac then fl32 (fdiv (fst ac) (real (snd ac))) else 0)"
    have step: "resample_loop buffer ratio newLength offsetResult offsetBuffer result =
        resample_loop buffer ratio newLength (offsetResult + 1) nxt (result[offsetResult := v])"
      using True by (subst resample_loop.simps) (simp add: Let_def nxt_def ac_def v_def)
    have ac_eq: "ac = (foldl fadd 0 (rounded_window buffer ratio offsetResult),
                       length (rounded_window buffer ratio offsetResult))"
      unfolding ac_def nxt_def "1.prems"(2) by (rule sum_window_spec [OF "1.prems"(1)])
    have v_eq: "v = rounded_average (rounded_window buffer ratio offsetResult)"
      by (simp add: v_def ac_eq rounded_average_def)
    have ih: "length (resample_loop buffer ratio newLength (offsetResult + 1) nxt
                 (result[offsetResult := v])) = length (result[offsetResult := v]) \<and>
         (\<forall>i < length (result[offsetResult := v]).
            resample_loop buffer ratio newLength (offsetResult + 1) nxt
                 (result[offsetResult := v]) ! i =
              (if offsetResult + 1 \<le> i \<and> i < newLength
               then rounded_average (rounded_window buffer ratio i)
               else result[offsetResult := v] ! i))"
      by (rule "1.IH" [OF True nxt_def ac_def, folded v_def, OF "1.prems"(1) nxt_def])
    have len: "length (resample_loop buffer ratio newLength (offsetResult + 1) nxt
                 (result[offsetResult := v])) = length result"
      using ih by simp
    have nth: "resample_loop buffer ratio newLength (offsetResult + 1) nxt
                 (result[offsetResult := v]) ! i =
              (if offsetResult \<le> i \<and> i < newLength
               then rounded_average (rounded_window buffer ratio i) else result ! i)"
      if "i < length result" for i
    proof (cases "i = offsetResult")
      case True
      with ih that \<open>offsetResult < newLength\<close> show ?thesis
        by (simp add: v_eq)
    next
      case False
      with ih that show ?thesis
        by auto
    qed
    show ?thesis
      unfolding step using len nth by simp
  qed
qed

lemma resample_loop_length:
  "length (resample_loop buffer ratio newLength offsetResult offsetBuffer result) =
     length result"
proof (induction buffer ratio newLength offsetResult offsetBuffer result
    rule: resample_loop.induct)
  case (1 buffer ratio newLength offsetResult offsetBuffer result)
  show ?case
  proof (cases "offsetResult < newLength")
    case False
    then show ?thesis
      by (subst resample_loop.simps) simp
  next
    case True
    define nxt where "nxt = js_round (fmul (real (offsetResult + 1)) ratio)"
    define ac where "ac = sum_window buffer offsetBuffer nxt 0 0"
    define v where "v = (if 0 < snd ac then fl32 (fdiv (fst ac) (real (snd ac))) else 0)"
    have step: "resample_loop buffer ratio newLength offsetResult offsetBuffer result =
        resample_loop buffer ratio newLength (offsetResult + 1) nxt (result[offsetResult := v])"
      using True by (subst resample_loop.simps) (simp add: Let_def nxt_def ac_def v_def)
    have "length (resample_loop buffer ratio newLength (offsetResult + 1) nxt
                 (result[offsetResult := v])) = length (result[offsetResult := v])"
      by (rule "1.IH" [OF True nxt_def ac_def, folded v_def])
    then show ?thesis
      unfolding step by simp
  qed
qed

lemma resample_equal_length:
  assumes "valid_rate r" and "n < (2::nat) ^ 20"
  shows "js_round (fdiv (real n) (fdiv r r)) = int n"
proof -
  have "r \<noteq> 0"
    using assms(1) by (auto simp add: valid_rate_def)
  then have one: "fdiv r r = 1"
    by (simp add: fdiv_def fl64_one)
  have "n < 2 ^ 53"
    using assms(2) by (rule less_trans) simp
  then have "fdiv (real n) 1 = real n"
    by (simp add: fdiv_def fl64_of_nat)
  then show ?thesis
    by (simp add: one js_round_of_nat)
qed

lemma resampleFloat32_windows:
  assumes "valid_rate sourceRate" and "valid_rate targetRate" and "length buffer < 2 ^ 20"
    and "sourceRate \<noteq> targetRate"
  shows "0 \<le> js_round (fdiv (real (length buffer)) (fdiv sourceRate targetRate))"
    and "resampleFloat32 buffer sourceRate targetRate =
      Some (map (\<lambda>i. rounded_average (rounded_window buffer (fdiv sourceRate targetRate) i))
              [0 ..< nat (js_round (fdiv (real (length buffer)) (fdiv sourceRate targetRate)))])"
proof -
  define ratio where "ratio = fdiv sourceRate targetRate"
  define newLength where "newLength = js_round (fdiv (real (length buffer)) ratio)"
  have t0: "targetRate \<noteq> 0"
    using assms(2) by (auto simp add: valid_rate_def)
  have fin: "\<not> overflows (sourceRate / targetRate)" and lo: "2 powi (- 32) \<le> ratio"
    unfolding ratio_def by (rule valid_ratio [OF assms(1,2)])+
  have ratio_pos: "0 < ratio"
    by (rule less_le_trans [OF two_powi_pos lo])
  have n32: "length buffer < 2 ^ 32"
    using assms(3) by (rule less_trans) simp
  have fin2: "\<not> overflows (real (length buffer) / ratio)"
    and nn: "0 \<le> fdiv (real (length buffer)) ratio"
    by (rule valid_length [OF lo n32])+
  show nonneg: "0 \<le> newLength"
    unfolding newLength_def using nn by (rule js_round_nonneg)
  define out where
    "out = resample_loop buffer ratio (nat newLength) 0 0 (replicate (nat newLength) 0)"
  have res: "resampleFloat32 buffer sourceRate targetRate = Some out"
    using assms(4) nonneg t0 fin fin2 ratio_pos
    by (simp add: resampleFloat32_def Let_def ratio_def [symmetric] newLength_def [symmetric]
        out_def)
  have z: "(0::int) = js_round (fmul (real (0::nat)) ratio)"
    by (simp add: fmul_def fl64_zero js_round_def)
  have spec: "length out = length (replicate (nat newLength) (0::real)) \<and>
         (\<forall>i < length (replicate (nat newLength) (0::real)).
            out ! i = (if 0 \<le> i \<and> i < nat newLength
               then rounded_average (rounded_window buffer ratio i)
               else replicate (nat newLength) (0::real) ! i))"
    unfolding out_def
    by (rule resample_loop_spec [OF _ z]) (use ratio_pos in simp)
  have "out = map (\<lambda>i. rounded_average (rounded_window buffer ratio i)) [0 ..< nat newLength]"
    using spec by (intro nth_equalityI) simp_all
  then show "resampleFloat32 buffer sourceRate targetRate =
      Some (map (\<lambda>i. rounded_average (rounded_window buffer ratio i)) [0 ..< nat newLength])"
    using res by simp
qed

text \<open>
  C2 as stated fails for 240 samples from 48000 Hz to 44100 Hz:
  \<open>round (240 * 44100 / 48000)\<close> is \<open>round 220.5 = 221\<close>, but the code divides twice in
  doubles, \<^verbatim>\<open>240 / (48000 / 44100)\<close>, which gives \<open>220.49999999999997\<close>, and the output
  has 220 samples.
\<close>

theorem resample_length_counterexample:
  "valid_rate 48000 \<and> valid_rate 44100 \<and>
   map_option length (resampleFloat32 (replicate 240 0) 48000 44100) = Some 220 \<and>
   js_round (real 240 * 44100 / 48000) = 221"
proof -
  have v1: "valid_rate 48000" and v2: "valid_rate 44100"
    using valid_rate_of_nat [of 48000] valid_rate_of_nat [of 44100] by simp_all
  have r1: "fdiv 48000 44100 = 4901877145437275 / 4503599627370496"
    unfolding fdiv_def by (rule fl64_eqI [where e = "0" and m = 4901877145437275]) simp_all
  have r2: "fdiv 240 (4901877145437275 / 4503599627370496) = 7758154045587455 / 35184372088832"
    unfolding fdiv_def by (rule fl64_eqI [where e = "7" and m = 7758154045587455]) simp_all
  have len: "js_round (fdiv (real (length (replicate 240 (0::real)))) (fdiv 48000 44100)) = 220"
    by (simp add: r1 r2 js_round_def)
  have "resampleFloat32 (replicate 240 0) 48000 44100 =
      Some (map (\<lambda>i. rounded_average (rounded_window (replicate 240 0) (fdiv 48000 44100) i))
              [0 ..< nat 220])"
    using resampleFloat32_windows(2) [OF v1 v2, of "replicate 240 0"] unfolding len by simp
  then have "map_option length (resampleFloat32 (replicate 240 0) 48000 44100) = Some 220"
    by simp
  moreover have "js_round (real 240 * 44100 / 48000) = 221"
    by (simp add: js_round_def)
  ultimately show ?thesis
    using v1 v2 by simp
qed

text \<open>
  C2, amended: for valid rates and an input of fewer than \<open>2 ^ 20\<close> samples,
  \<^verbatim>\<open>resampleFloat32\<close> returns an output whose length is
  \<open>round (inputLength / (sourceRate / targetRate))\<close>, both quotients rounded to doubles.
  With different rates each output sample is the average of the source samples of its
  window, which ends before the index \<open>round ((i + 1) * ratio)\<close>, the product rounded to a
  double: the samples are added one by one in doubles, and the quotient of the sum by
  their number, rounded to a double, is stored as a float32; an empty window gives 0.
  With equal rates the input is returned as it is.
\<close>

theorem resample_rounded_length_and_windows:
  assumes "valid_rate sourceRate" and "valid_rate targetRate" and "length buffer < 2 ^ 20"
  shows "\<exists>out. resampleFloat32 buffer sourceRate targetRate = Some out \<and>
           int (length out) =
             js_round (fdiv (real (length buffer)) (fdiv sourceRate targetRate)) \<and>
           (sourceRate = targetRate \<longrightarrow> out = buffer) \<and>
           (sourceRate \<noteq> targetRate \<longrightarrow>
              (\<forall>i < length out.
                 out ! i =
                   rounded_average (rounded_window buffer (fdiv sourceRate targetRate) i)))"
proof (cases "sourceRate = targetRate")
  case True
  show ?thesis
    using True resample_equal_length [OF assms(2,3)] by (simp add: resampleFloat32_def)
next
  case False
  show ?thesis
    using resampleFloat32_windows [OF assms False] False by simp
qed

text \<open>
  Twelve samples from 44100 Hz to 16000 Hz: the ratio is the double nearest to
  \<open>2.75625\<close>, and the four output samples are the averages of the windows of 3, 3, 2 and 3
  samples; the average of \<open>1, 0, 0\<close> is the float32 nearest to one third. With equal
  rates the input comes back.
\<close>

theorem resample_rounded_length_and_windows_witness:
  "valid_rate 44100 \<and> valid_rate 16000 \<and>
   length [1, 0, 0, 1 / 2, 1 / 4, 1 / 8, 1, 1 / 2, 3 / 4, - 1, - (1 / 2), 1 / 16 :: real]
     < 2 ^ 20 \<and>
   resampleFloat32 [1, 0, 0, 1 / 2, 1 / 4, 1 / 8, 1, 1 / 2, 3 / 4, - 1, - (1 / 2), 1 / 16]
     44100 16000 = Some [11184811 / 33554432, 9786709 / 33554432, 3 / 4, - (1 / 4)] \<and>
   fdiv 44100 16000 = 6206523236469965 / 2251799813685248 \<and>
   js_round (fdiv 12 (fdiv 44100 16000)) = 4 \<and>
   map (rounded_window
          [1, 0, 0, 1 / 2, 1 / 4, 1 / 8, 1, 1 / 2, 3 / 4, - 1, - (1 / 2), 1 / 16]
          (fdiv 44100 16000)) [0, 1, 2, 3] =
     [[1, 0, 0], [1 / 2, 1 / 4, 1 / 8], [1, 1 / 2], [3 / 4, - 1, - (1 / 2)]] \<and>
   map rounded_average [[1, 0, 0], [1 / 2, 1 / 4, 1 / 8], [1, 1 / 2], [3 / 4, - 1, - (1 / 2)]] =
     [11184811 / 33554432, 9786709 / 33554432, 3 / 4, - (1 / 4)] \<and>
   resampleFloat32 [1, 0, 0, 1 / 2] 16000 16000 = Some [1, 0, 0, 1 / 2]"
proof -
  define buffer :: samples
    where "buffer = [1, 0, 0, 1 / 2, 1 / 4, 1 / 8, 1, 1 / 2, 3 / 4, - 1, - (1 / 2), 1 / 16]"
  have h1: "valid_rate 44100" and h2: "valid_rate 16000"
    using valid_rate_of_nat [of 44100] valid_rate_of_nat [of 16000] by simp_all
  have h3: "length buffer < 2 ^ 20" and h4: "length [1, 0, 0, 1 / 2 :: real] < 2 ^ 20"
    by (simp_all add: buffer_def)
  have r1: "fdiv 44100 16000 = 6206523236469965 / 2251799813685248"
    unfolding fdiv_def by (rule fl64_eqI [where e = "1" and m = 6206523236469965]) simp_all
  have r2: "fdiv 12 (6206523236469965 / 2251799813685248) = 2450938572718637 / 562949953421312"
    unfolding fdiv_def by (rule fl64_eqI [where e = "2" and m = 4901877145437274]) simp_all
  have r3: "fmul 0 (6206523236469965 / 2251799813685248) = 0"
    by (simp add: fmul_def fl64_zero)
  have r4: "fmul 1 (6206523236469965 / 2251799813685248) = 6206523236469965 / 2251799813685248"
    unfolding fmul_def by (rule fl64_eqI [where e = "1" and m = 6206523236469965]) simp_all
  have r5: "fadd 0 1 = 1"
    unfolding fadd_def by (rule fl64_eqI [where e = "0" and m = 4503599627370496]) simp_all
  have r6: "fadd 1 0 = 1"
    unfolding fadd_def by (rule fl64_eqI [where e = "0" and m = 4503599627370496]) simp_all
  have r7: "fdiv 1 3 = 6004799503160661 / 18014398509481984"
    unfolding fdiv_def by (rule fl64_eqI [where e = "- 2" and m = 6004799503160661]) simp_all
  have r8: "fl32 (6004799503160661 / 18014398509481984) = 11184811 / 33554432"
    by (rule fl32_eqI [where e = "- 2" and m = 11184811]) simp_all
  have r9: "fmul 2 (6206523236469965 / 2251799813685248) = 6206523236469965 / 1125899906842624"
    unfolding fmul_def by (rule fl64_eqI [where e = "2" and m = 6206523236469965]) simp_all
  have r10: "fadd 0 (1 / 2) = 1 / 2"
    unfolding fadd_def by (rule fl64_eqI [where e = "- 1" and m = 4503599627370496]) simp_all
  have r11: "fadd (1 / 2) (1 / 4) = 3 / 4"
    unfolding fadd_def by (rule fl64_eqI [where e = "- 1" and m = 6755399441055744]) simp_all
  have r12: "fadd (3 / 4) (1 / 8) = 7 / 8"
    unfolding fadd_def by (rule fl64_eqI [where e = "- 1" and m = 7881299347898368]) simp_all
  have r13: "fdiv (7 / 8) 3 = 5254199565265579 / 18014398509481984"
    unfolding fdiv_def by (rule fl64_eqI [where e = "- 2" and m = 5254199565265579]) simp_all
  have r14: "fl32 (5254199565265579 / 18014398509481984) = 9786709 / 33554432"
    by (rule fl32_eqI [where e = "- 2" and m = 9786709]) simp_all
  have r15: "fmul 3 (6206523236469965 / 2251799813685248) = 2327446213676237 / 281474976710656"
    unfolding fmul_def by (rule fl64_eqI [where e = "3" and m = 4654892427352474]) simp_all
  have r16: "fadd 1 (1 / 2) = 3 / 2"
    unfolding fadd_def by (rule fl64_eqI [where e = "0" and m = 6755399441055744]) simp_all
  have r17: "fdiv (3 / 2) 2 = 3 / 4"
    unfolding fdiv_def by (rule fl64_eqI [where e = "- 1" and m = 6755399441055744]) simp_all
  have r18: "fl32 (3 / 4) = 3 / 4"
    by (rule fl32_eqI [where e = "- 1" and m = 12582912]) simp_all
  have r19: "fmul 4 (6206523236469965 / 2251799813685248) = 6206523236469965 / 562949953421312"
    unfolding fmul_def by (rule fl64_eqI [where e = "3" and m = 6206523236469965]) simp_all
  have r20: "fadd 0 (3 / 4) = 3 / 4"
    unfolding fadd_def by (rule fl64_eqI [where e = "- 1" and m = 6755399441055744]) simp_all
  have r21: "fadd (3 / 4) (- 1) = - (1 / 4)"
    unfolding fadd_def by (rule fl64_eqI [where e = "- 2" and m = 4503599627370496]) simp_all
  have r22: "fadd (- (1 / 4)) (- (1 / 2)) = - (3 / 4)"
    unfolding fadd_def by (rule fl64_eqI [where e = "- 1" and m = 6755399441055744]) simp_all
  have r23: "fdiv (- (3 / 4)) 3 = - (1 / 4)"
    unfolding fdiv_def by (rule fl64_eqI [where e = "- 2" and m = 4503599627370496]) simp_all
  have r24: "fl32 (- (1 / 4)) = - (1 / 4)"
    by (rule fl32_eqI [where e = "- 2" and m = 8388608]) simp_all
  note rs = r1 r2 r3 r4 r5 r6 r7 r8 r9 r10 r11 r12 r13 r14 r15 r16 r17 r18 r19 r20 r21 r22 r23 r24
  have l: "js_round (fdiv (real (length buffer)) (fdiv 44100 16000)) = 4"
    by (simp add: buffer_def rs js_round_def)
  have w: "map (rounded_window buffer (fdiv 44100 16000)) [0, 1, 2, 3] =
      [[1, 0, 0], [1 / 2, 1 / 4, 1 / 8], [1, 1 / 2], [3 / 4, - 1, - (1 / 2)]]"
    by (simp add: rounded_window_def buffer_def rs js_round_def)
  have a: "map rounded_average
        [[1, 0, 0], [1 / 2, 1 / 4, 1 / 8], [1, 1 / 2], [3 / 4, - 1, - (1 / 2)]] =
      [11184811 / 33554432, 9786709 / 33554432, 3 / 4, - (1 / 4)]"
    by (simp add: rounded_average_def rs)
  obtain out where o: "resampleFloat32 buffer 44100 16000 = Some out"
    and lo: "int (length out) = js_round (fdiv (real (length buffer)) (fdiv 44100 16000))"
    and wo: "\<forall>i < length out.
              out ! i = rounded_average (rounded_window buffer (fdiv 44100 16000) i)"
    using resample_rounded_length_and_windows [OF h1 h2 h3] by auto
  have len: "length out = 4"
    using lo unfolding l by simp
  have nth: "out ! i = map rounded_average (map (rounded_window buffer (fdiv 44100 16000))
      [0, 1, 2, 3]) ! i" if "i < 4" for i
    using wo [rule_format, of i] that len
    by (auto simp add: less_Suc_eq numeral_eq_Suc simp del: upt_Suc)
  have out: "out = [11184811 / 33554432, 9786709 / 33554432, 3 / 4, - (1 / 4)]"
    unfolding a [symmetric] w [symmetric] using len nth by (intro nth_equalityI) simp_all
  have same: "resampleFloat32 [1, 0, 0, 1 / 2] 16000 16000 = Some [1, 0, 0, 1 / 2]"
    using resample_rounded_length_and_windows [OF h2 h2 h4] by auto
  have o': "resampleFloat32 buffer 44100 16000 =
      Some [11184811 / 33554432, 9786709 / 33554432, 3 / 4, - (1 / 4)]"
    using o out by simp
  have l': "js_round (fdiv 12 (fdiv 44100 16000)) = 4"
    using l by (simp add: buffer_def)
  show ?thesis
    unfolding buffer_def [symmetric] using h1 h2 h3 o' r1 l' w a same by blast
qed

subsection \<open>Quantization\<close>

lemma Max_insert_max:
  assumes "finite S"
  shows "Max (insert (max p a) S) = Max (insert p (insert a S))"
proof (cases "S = {}")
  case True
  then show ?thesis by simp
next
  case False
  then show ?thesis using assms by (simp add: max.assoc)
qed

lemma find_peak_Max: "find_peak xs p = Max (insert p ((\<lambda>x. \<bar>x\<bar>) ` set xs))"
proof (induction xs arbitrary: p)
  case Nil
  show ?case by simp
next
  case (Cons x xs)
  have "find_peak (x # xs) p = Max (insert (max p \<bar>x\<bar>) ((\<lambda>x. \<bar>x\<bar>) ` set xs))"
    by (simp add: Cons.IH max_def)
  also have "\<dots> = Max (insert p (insert \<bar>x\<bar> ((\<lambda>x. \<bar>x\<bar>) ` set xs)))"
    by (rule Max_insert_max) simp
  finally show ?case by simp
qed

lemma clamp_unit_bounds: "- 1 \<le> clamp_unit s \<and> clamp_unit s \<le> 1"
  by (simp add: clamp_unit_def)

lemma scale_int16_bounds:
  assumes "- 1 \<le> s" and "s \<le> 1"
  shows "- 32768 \<le> scale_int16 s \<and> scale_int16 s \<le> 32767"
proof (cases "s < 0")
  case True
  define y where "y = - (s * 32768)"
  have y: "0 \<le> y" "y \<le> of_int 32768" "y \<le> 2 ^ 52"
    using True assms(1) by (simp_all add: y_def)
  have "fl64 y \<le> of_int 32768"
    by (rule fl64_le_int [OF y])
  moreover have "0 \<le> fl64 y"
    by (rule fl64_nonneg [OF y(1)])
  moreover have "fmul s 32768 = - fl64 y"
    using fl64_minus [of y] by (simp add: fmul_def y_def)
  ultimately show ?thesis
    using True by (simp add: scale_int16_def)
next
  case False
  define y where "y = s * 32767"
  have y: "0 \<le> y" "y \<le> of_int 32767" "y \<le> 2 ^ 52"
    using False assms(2) by (simp_all add: y_def)
  have "fl64 y \<le> of_int 32767"
    by (rule fl64_le_int [OF y])
  moreover have "0 \<le> fl64 y"
    by (rule fl64_nonneg [OF y(1)])
  ultimately show ?thesis
    using False by (simp add: scale_int16_def fmul_def y_def)
qed

lemma js_trunc_bounds:
  assumes "- 32768 \<le> y" and "y \<le> 32767"
  shows "- 32768 \<le> js_trunc y \<and> js_trunc y \<le> 32767"
proof (cases "y < 0")
  case True
  have "\<lceil>- 32768 :: real\<rceil> \<le> \<lceil>y\<rceil>" using assms(1) by (rule ceiling_mono)
  moreover have "\<lceil>y\<rceil> \<le> 0" using True by (simp add: ceiling_le_iff)
  ultimately show ?thesis using True by (simp add: js_trunc_def)
next
  case False
  have "\<lfloor>y\<rfloor> \<le> \<lfloor>32767 :: real\<rfloor>" using assms(2) by (rule floor_mono)
  moreover have "0 \<le> \<lfloor>y\<rfloor>" using False by simp
  ultimately show ?thesis using False by (simp add: js_trunc_def)
qed

lemma sint_to_int16:
  assumes "- 32768 \<le> js_trunc y" and "js_trunc y \<le> 32767"
  shows "sint (to_int16 y) = js_trunc y"
proof -
  have "signed_take_bit 15 (js_trunc y) = js_trunc y"
    using assms by (intro signed_take_bit_int_eq_self) simp_all
  then show ?thesis
    by (simp add: to_int16_def sint_sbintrunc')
qed

lemma sint_quantized:
  "sint (to_int16 (scale_int16 (clamp_unit s))) = js_trunc (scale_int16 (clamp_unit s)) \<and>
   - 32768 \<le> js_trunc (scale_int16 (clamp_unit s)) \<and>
   js_trunc (scale_int16 (clamp_unit s)) \<le> 32767"
proof -
  have c: "- 1 \<le> clamp_unit s" "clamp_unit s \<le> 1"
    using clamp_unit_bounds by simp_all
  have sc: "- 32768 \<le> scale_int16 (clamp_unit s)" "scale_int16 (clamp_unit s) \<le> 32767"
    using scale_int16_bounds [OF c] by simp_all
  have t: "- 32768 \<le> js_trunc (scale_int16 (clamp_unit s))"
    "js_trunc (scale_int16 (clamp_unit s)) \<le> 32767"
    using js_trunc_bounds [OF sc] by simp_all
  show ?thesis
    using sint_to_int16 [OF t] t by simp
qed

lemma noise_floor_literal: "fl64 (1 / 100000) = 5902958103587057 / 590295810358705651712"
  by (rule fl64_eqI [where e = "- 17" and m = 5902958103587057]) simp_all

lemma gain_ceiling_literal: "fl64 (3 / 10) = 5404319552844595 / 18014398509481984"
  by (rule fl64_eqI [where e = "- 2" and m = 5404319552844595]) simp_all

lemma target_peak_literal: "fl64 (7 / 10) = 3152519739159347 / 4503599627370496"
  by (rule fl64_eqI [where e = "- 1" and m = 6305039478318694]) simp_all

lemma float32_quiet: "fl32 (1 / 100) = 5368709 / 536870912"
  by (rule fl32_eqI [where e = "- 7" and m = 10737418]) simp_all

lemma gain_noise_floor: "auto_gain (1 / 131072) = 1"
  by (simp add: auto_gain_def noise_floor_literal gain_ceiling_literal target_peak_literal)

lemma gain_loud: "auto_gain (1 / 2) = 1"
  by (simp add: auto_gain_def noise_floor_literal gain_ceiling_literal target_peak_literal)

lemma gain_quiet: "auto_gain (fl32 (1 / 100)) = 50"
proof -
  have r1: "fdiv (3152519739159347 / 4503599627370496) (5368709 / 536870912) =
      2462906101268481 / 35184372088832"
    unfolding fdiv_def by (rule fl64_eqI [where e = "6" and m = 4925812202536962]) simp_all
  show ?thesis
    unfolding float32_quiet by (simp add: auto_gain_def noise_floor_literal gain_ceiling_literal
        target_peak_literal r1)
qed

lemma gain_example: "auto_gain (7 / 32) = 7205759403792793 / 2251799813685248"
proof -
  have r1: "fdiv (3152519739159347 / 4503599627370496) (7 / 32) =
      7205759403792793 / 2251799813685248"
    unfolding fdiv_def by (rule fl64_eqI [where e = "1" and m = 7205759403792793]) simp_all
  show ?thesis
    by (simp add: auto_gain_def noise_floor_literal gain_ceiling_literal target_peak_literal r1)
qed

lemma quantize_example:
  "map sint (floatTo16BitPCM [7 / 32, - (5 / 32)]) = [22936, - 16383]"
proof -
  have r1: "fdiv (3152519739159347 / 4503599627370496) (7 / 32) =
      7205759403792793 / 2251799813685248"
    unfolding fdiv_def by (rule fl64_eqI [where e = "1" and m = 7205759403792793]) simp_all
  have r2: "fmul (7 / 32) (7205759403792793 / 2251799813685248) =
      3152519739159347 / 4503599627370496"
    unfolding fmul_def by (rule fl64_eqI [where e = "- 1" and m = 6305039478318694]) simp_all
  have r3: "fmul (3152519739159347 / 4503599627370496) 32767 = 6304847063783833 / 274877906944"
    unfolding fmul_def by (rule fl64_eqI [where e = "14" and m = 6304847063783833]) simp_all
  have r4: "fmul (- (5 / 32)) (7205759403792793 / 2251799813685248) =
      - (9007199254740991 / 18014398509481984)"
    unfolding fmul_def by (rule fl64_eqI [where e = "- 2" and m = 9007199254740991]) simp_all
  have r5: "fmul (- (9007199254740991 / 18014398509481984)) 32768 =
      - (9007199254740991 / 549755813888)"
    unfolding fmul_def by (rule fl64_eqI [where e = "13" and m = 9007199254740991]) simp_all
  show ?thesis
    by (simp add: floatTo16BitPCM_def Let_def auto_gain_def pcm_sample_def clamp_unit_def
        scale_int16_def to_int16_def js_trunc_def
        noise_floor_literal gain_ceiling_literal target_peak_literal r1 r2 r3 r4 r5)
qed

lemma quantize_quiet_example:
  "map sint (floatTo16BitPCM [5368709 / 536870912, - (5368709 / 1073741824)]) = [16383, - 8191]"
proof -
  have r1: "fdiv (3152519739159347 / 4503599627370496) (5368709 / 536870912) =
      2462906101268481 / 35184372088832"
    unfolding fdiv_def by (rule fl64_eqI [where e = "6" and m = 4925812202536962]) simp_all
  have r2: "fmul (5368709 / 536870912) 50 = 134217725 / 268435456"
    unfolding fmul_def by (rule fl64_eqI [where e = "- 2" and m = 9007199053414400]) simp_all
  have r3: "fmul (134217725 / 268435456) 32767 = 4397912195075 / 268435456"
    unfolding fmul_def by (rule fl64_eqI [where e = "13" and m = 9006924175513600]) simp_all
  have r4: "fmul (- (5368709 / 1073741824)) 50 = - (134217725 / 536870912)"
    unfolding fmul_def by (rule fl64_eqI [where e = "- 3" and m = 9007199053414400]) simp_all
  have r5: "fmul (- (134217725 / 536870912)) 32768 = - (134217725 / 16384)"
    unfolding fmul_def by (rule fl64_eqI [where e = "12" and m = 9007199053414400]) simp_all
  show ?thesis
    by (simp add: floatTo16BitPCM_def Let_def auto_gain_def pcm_sample_def clamp_unit_def
        scale_int16_def to_int16_def js_trunc_def
        noise_floor_literal gain_ceiling_literal target_peak_literal r1 r2 r3 r4 r5)
qed

lemma quantize_clip_example:
  "map sint (floatTo16BitPCM [2, - 3, 1 / 2]) = [32767, - 32768, 16383]"
proof -
  have r1: "fmul 2 1 = 2"
    unfolding fmul_def by (rule fl64_eqI [where e = "1" and m = 4503599627370496]) simp_all
  have r2: "fmul 1 32767 = 32767"
    unfolding fmul_def by (rule fl64_eqI [where e = "14" and m = 9006924376834048]) simp_all
  have r3: "fmul (- 3) 1 = - 3"
    unfolding fmul_def by (rule fl64_eqI [where e = "1" and m = 6755399441055744]) simp_all
  have r4: "fmul (- 1) 32768 = - 32768"
    unfolding fmul_def by (rule fl64_eqI [where e = "15" and m = 4503599627370496]) simp_all
  have r5: "fmul (1 / 2) 1 = 1 / 2"
    unfolding fmul_def by (rule fl64_eqI [where e = "- 1" and m = 4503599627370496]) simp_all
  have r6: "fmul (1 / 2) 32767 = 32767 / 2"
    unfolding fmul_def by (rule fl64_eqI [where e = "13" and m = 9006924376834048]) simp_all
  show ?thesis
    by (simp add: floatTo16BitPCM_def Let_def auto_gain_def pcm_sample_def clamp_unit_def
        scale_int16_def to_int16_def js_trunc_def
        noise_floor_literal gain_ceiling_literal target_peak_literal r1 r2 r3 r4 r5 r6)
qed

lemma quantize_offscreen_example:
  "map sint (floatTo16BitPCM_offscreen [2, - 3, 1 / 2]) = [32767, - 32768, 16383]"
proof -
  have r1: "fmul 1 32767 = 32767"
    unfolding fmul_def by (rule fl64_eqI [where e = "14" and m = 9006924376834048]) simp_all
  have r2: "fmul (- 1) 32768 = - 32768"
    unfolding fmul_def by (rule fl64_eqI [where e = "15" and m = 4503599627370496]) simp_all
  have r3: "fmul (1 / 2) 32767 = 32767 / 2"
    unfolding fmul_def by (rule fl64_eqI [where e = "13" and m = 9006924376834048]) simp_all
  show ?thesis
    by (simp add: floatTo16BitPCM_offscreen_def clamp_unit_def scale_int16_def to_int16_def
        js_trunc_def r1 r2 r3)
qed

text \<open>
  C3 as stated fails for a very quiet frame: the peak \<open>2 ^ -17\<close>, about \<open>0.0000076\<close>, lies
  between 0 and \<open>0.3\<close>, and the gain \<open>min 50 (0.7 / peak)\<close> would be 50, giving the sample
  12; the code leaves the gain at 1 and the sample is 0, because the gain only applies
  above the noise floor \<open>0.00001\<close>.
\<close>

theorem quantize_gain_counterexample:
  "find_peak [1 / 131072] 0 = 1 / 131072 \<and>
   (0::real) < 1 / 131072 \<and> (1 / 131072 :: real) < 3 / 10 \<and>
   min 50 (fdiv (fl64 (7 / 10)) (1 / 131072)) = 50 \<and>
   auto_gain (find_peak [1 / 131072] 0) = 1 \<and>
   map sint (floatTo16BitPCM [1 / 131072]) = [0] \<and>
   map sint (map (pcm_sample 50) [1 / 131072]) = [12]"
proof -
  have r1: "fdiv (3152519739159347 / 4503599627370496) (1 / 131072) =
      3152519739159347 / 34359738368"
    unfolding fdiv_def by (rule fl64_eqI [where e = "16" and m = 6305039478318694]) simp_all
  have r2: "fmul (1 / 131072) 1 = 1 / 131072"
    unfolding fmul_def by (rule fl64_eqI [where e = "- 17" and m = 4503599627370496]) simp_all
  have r3: "fmul (1 / 131072) 32767 = 32767 / 131072"
    unfolding fmul_def by (rule fl64_eqI [where e = "- 3" and m = 9006924376834048]) simp_all
  have r4: "fmul (1 / 131072) 50 = 25 / 65536"
    unfolding fmul_def by (rule fl64_eqI [where e = "- 12" and m = 7036874417766400]) simp_all
  have r5: "fmul (25 / 65536) 32767 = 819175 / 65536"
    unfolding fmul_def by (rule fl64_eqI [where e = "3" and m = 7036659669401600]) simp_all
  note rs = r1 r2 r3 r4 r5
  have peak: "find_peak [1 / 131072] 0 = 1 / 131072"
    by simp
  have m: "min 50 (fdiv (fl64 (7 / 10)) (1 / 131072)) = 50"
    by (simp add: target_peak_literal rs)
  have g: "auto_gain (find_peak [1 / 131072] 0) = 1"
    unfolding peak by (simp add: auto_gain_def noise_floor_literal gain_ceiling_literal
        target_peak_literal)
  have f: "map sint (floatTo16BitPCM [1 / 131072]) = [0]"
    by (simp add: floatTo16BitPCM_def Let_def auto_gain_def pcm_sample_def clamp_unit_def
        scale_int16_def to_int16_def js_trunc_def
        noise_floor_literal gain_ceiling_literal target_peak_literal rs)
  have s50: "map sint (map (pcm_sample 50) [1 / 131072]) = [12]"
    by (simp add: pcm_sample_def clamp_unit_def scale_int16_def to_int16_def js_trunc_def rs)
  show ?thesis
    using peak m g f s50 by simp
qed

text \<open>
  C3, amended: \<^verbatim>\<open>floatTo16BitPCM\<close> computes the peak absolute amplitude of the frame and,
  whenever the peak lies above the double \<open>0.00001\<close> and below the double \<open>0.3\<close>,
  multiplies every sample by \<open>gain = min 50 (0.7 / peak)\<close> before clamping, the quotient
  and the products being those of doubles; otherwise the gain is 1. A frame whose peak
  is \<open>0.01\<close> as a float32 gets gain 50 and a frame with peak \<open>0.5\<close> gets gain 1.
\<close>

theorem quantize_adaptive_gain:
  "find_peak frame 0 = Max (insert 0 ((\<lambda>x. \<bar>x\<bar>) ` set frame)) \<and>
   floatTo16BitPCM frame =
     map (\<lambda>x. to_int16 (scale_int16 (clamp_unit
            (fmul x (if fl64 (1 / 100000) < find_peak frame 0 \<and>
                       find_peak frame 0 < fl64 (3 / 10)
                     then min 50 (fdiv (fl64 (7 / 10)) (find_peak frame 0)) else 1))))) frame \<and>
   (find_peak frame 0 = fl32 (1 / 100) \<longrightarrow> auto_gain (find_peak frame 0) = 50) \<and>
   (find_peak frame 0 = 1 / 2 \<longrightarrow> auto_gain (find_peak frame 0) = 1)"
proof -
  have peak: "find_peak frame 0 = Max (insert 0 ((\<lambda>x. \<bar>x\<bar>) ` set frame))"
    by (rule find_peak_Max)
  have conv: "floatTo16BitPCM frame =
     map (\<lambda>x. to_int16 (scale_int16 (clamp_unit
            (fmul x (if fl64 (1 / 100000) < find_peak frame 0 \<and>
                       find_peak frame 0 < fl64 (3 / 10)
                     then min 50 (fdiv (fl64 (7 / 10)) (find_peak frame 0)) else 1))))) frame"
    by (simp add: floatTo16BitPCM_def Let_def auto_gain_def pcm_sample_def)
  have q: "auto_gain (find_peak frame 0) = 50" if e: "find_peak frame 0 = fl32 (1 / 100)"
    unfolding e by (rule gain_quiet)
  have l: "auto_gain (find_peak frame 0) = 1" if e: "find_peak frame 0 = 1 / 2"
    unfolding e by (rule gain_loud)
  show ?thesis
    using peak conv q l by blast
qed

text \<open>
  The frame of the float32 values of \<open>0.01\<close> and \<open>-0.005\<close> gets gain 50 and becomes
  \<open>16383, -8191\<close>; a frame with peak \<open>0.5\<close> gets gain 1.
\<close>

theorem quantize_adaptive_gain_witness:
  "find_peak [5368709 / 536870912, - (5368709 / 1073741824)] 0 = fl32 (1 / 100) \<and>
   auto_gain (find_peak [5368709 / 536870912, - (5368709 / 1073741824)] 0) = 50 \<and>
   map sint (floatTo16BitPCM [5368709 / 536870912, - (5368709 / 1073741824)]) =
     [16383, - 8191] \<and>
   find_peak [1 / 2, 1 / 4] 0 = 1 / 2 \<and>
   auto_gain (find_peak [1 / 2, 1 / 4] 0) = 1"
proof -
  have p1: "find_peak [5368709 / 536870912, - (5368709 / 1073741824)] 0 = fl32 (1 / 100)"
    unfolding float32_quiet by simp
  have p2: "find_peak [1 / 2, 1 / 4] 0 = 1 / 2"
    by simp
  have g1: "auto_gain (find_peak [5368709 / 536870912, - (5368709 / 1073741824)] 0) = 50"
    using quantize_adaptive_gain [of "[5368709 / 536870912, - (5368709 / 1073741824)]"] p1
    by blast
  have g2: "auto_gain (find_peak [1 / 2, 1 / 4] 0) = 1"
    using quantize_adaptive_gain [of "[1 / 2, 1 / 4]"] p2 by blast
  show ?thesis
    using p1 p2 g1 g2 quantize_quiet_example by blast
qed

text \<open>
  C9: every 16-bit value that the conversion produces lies in \<open>[-32768, 32767]\<close>, also
  for samples above 1 or below \<open>-1\<close>: the (gain-scaled) sample is clamped to
  \<open>[-1, 1]\<close> first, a negative sample is then multiplied by 32768 and any other by 32767,
  in doubles, and the number stored is that product cut off towards zero, which lies in
  the range, so that the store never wraps. It holds for the multi-track conversion and
  for the one without gain.
\<close>

theorem quantize_within_int16:
  "length (floatTo16BitPCM frame) = length frame \<and>
   length (floatTo16BitPCM_offscreen frame) = length frame \<and>
   (\<forall>i < length frame.
      - 1 \<le> clamp_unit (fmul (frame ! i) (auto_gain (find_peak frame 0))) \<and>
      clamp_unit (fmul (frame ! i) (auto_gain (find_peak frame 0))) \<le> 1 \<and>
      sint (floatTo16BitPCM frame ! i) =
        js_trunc (if clamp_unit (fmul (frame ! i) (auto_gain (find_peak frame 0))) < 0
                  then fmul (clamp_unit (fmul (frame ! i) (auto_gain (find_peak frame 0)))) 32768
                  else fmul (clamp_unit (fmul (frame ! i) (auto_gain (find_peak frame 0)))) 32767) \<and>
      - 32768 \<le>
        js_trunc (if clamp_unit (fmul (frame ! i) (auto_gain (find_peak frame 0))) < 0
                  then fmul (clamp_unit (fmul (frame ! i) (auto_gain (find_peak frame 0)))) 32768
                  else fmul (clamp_unit (fmul (frame ! i) (auto_gain (find_peak frame 0)))) 32767) \<and>
      js_trunc (if clamp_unit (fmul (frame ! i) (auto_gain (find_peak frame 0))) < 0
                then fmul (clamp_unit (fmul (frame ! i) (auto_gain (find_peak frame 0)))) 32768
                else fmul (clamp_unit (fmul (frame ! i) (auto_gain (find_peak frame 0)))) 32767)
        \<le> 32767 \<and>
      sint (floatTo16BitPCM_offscreen frame ! i) =
        js_trunc (if clamp_unit (frame ! i) < 0
                  then fmul (clamp_unit (frame ! i)) 32768
                  else fmul (clamp_unit (frame ! i)) 32767) \<and>
      - 32768 \<le>
        js_trunc (if clamp_unit (frame ! i) < 0
                  then fmul (clamp_unit (frame ! i)) 32768
                  else fmul (clamp_unit (frame ! i)) 32767) \<and>
      js_trunc (if clamp_unit (frame ! i) < 0
                then fmul (clamp_unit (frame ! i)) 32768
                else fmul (clamp_unit (frame ! i)) 32767) \<le> 32767)"
proof -
  define g where "g = auto_gain (find_peak frame 0)"
  have len: "length (floatTo16BitPCM frame) = length frame"
    "length (floatTo16BitPCM_offscreen frame) = length frame"
    by (simp_all add: floatTo16BitPCM_def floatTo16BitPCM_offscreen_def Let_def)
  have body: "- 1 \<le> clamp_unit (fmul (frame ! i) g) \<and>
      clamp_unit (fmul (frame ! i) g) \<le> 1 \<and>
      sint (floatTo16BitPCM frame ! i) =
        js_trunc (if clamp_unit (fmul (frame ! i) g) < 0
                  then fmul (clamp_unit (fmul (frame ! i) g)) 32768
                  else fmul (clamp_unit (fmul (frame ! i) g)) 32767) \<and>
      - 32768 \<le>
        js_trunc (if clamp_unit (fmul (frame ! i) g) < 0
                  then fmul (clamp_unit (fmul (frame ! i) g)) 32768
                  else fmul (clamp_unit (fmul (frame ! i) g)) 32767) \<and>
      js_trunc (if clamp_unit (fmul (frame ! i) g) < 0
                then fmul (clamp_unit (fmul (frame ! i) g)) 32768
                else fmul (clamp_unit (fmul (frame ! i) g)) 32767) \<le> 32767 \<and>
      sint (floatTo16BitPCM_offscreen frame ! i) =
        js_trunc (if clamp_unit (frame ! i) < 0
                  then fmul (clamp_unit (frame ! i)) 32768
                  else fmul (clamp_unit (frame ! i)) 32767) \<and>
      - 32768 \<le>
        js_trunc (if clamp_unit (frame ! i) < 0
                  then fmul (clamp_unit (frame ! i)) 32768
                  else fmul (clamp_unit (frame ! i)) 32767) \<and>
      js_trunc (if clamp_unit (frame ! i) < 0
                then fmul (clamp_unit (frame ! i)) 32768
                else fmul (clamp_unit (frame ! i)) 32767) \<le> 32767"
    if "i < length frame" for i
  proof -
    have a: "floatTo16BitPCM frame ! i =
        to_int16 (scale_int16 (clamp_unit (fmul (frame ! i) g)))"
      using that by (simp add: floatTo16BitPCM_def Let_def pcm_sample_def g_def)
    have b: "floatTo16BitPCM_offscreen frame ! i =
        to_int16 (scale_int16 (clamp_unit (frame ! i)))"
      using that by (simp add: floatTo16BitPCM_offscreen_def)
    show ?thesis
      unfolding a b
      using sint_quantized [of "fmul (frame ! i) g"] sint_quantized [of "frame ! i"]
        clamp_unit_bounds [of "fmul (frame ! i) g"]
      unfolding scale_int16_def by simp
  qed
  show ?thesis
    using len body unfolding g_def by blast
qed

text \<open>
  The samples \<open>2\<close> and \<open>-3\<close> are clipped to \<open>32767\<close> and \<open>-32768\<close>. In the frame
  \<open>7/32, -5/32\<close> the gain is the double below \<open>3.2\<close>, the second product is the double
  below \<open>-0.5\<close>, and the sample is \<open>-16383\<close>.
\<close>

theorem quantize_within_int16_witness:
  "map sint (floatTo16BitPCM [2, - 3, 1 / 2]) = [32767, - 32768, 16383] \<and>
   map sint (floatTo16BitPCM_offscreen [2, - 3, 1 / 2]) = [32767, - 32768, 16383] \<and>
   map sint (floatTo16BitPCM [7 / 32, - (5 / 32)]) = [22936, - 16383] \<and>
   clamp_unit (fmul (- 3) (auto_gain (find_peak [2, - 3, 1 / 2] 0))) = - 1 \<and>
   js_trunc (fmul (clamp_unit (fmul (- 3) (auto_gain (find_peak [2, - 3, 1 / 2] 0)))) 32768) =
     - 32768 \<and>
   js_trunc (fmul (clamp_unit (fmul (- (5 / 32))
       (auto_gain (find_peak [7 / 32, - (5 / 32)] 0)))) 32768) = - 16383 \<and>
   js_trunc (fmul (clamp_unit 2) 32767) = 32767"
proof -
  have i1: "1 < length [2, - 3, 1 / 2 :: real]" and i0: "0 < length [2, - 3, 1 / 2 :: real]"
    and j1: "1 < length [7 / 32, - (5 / 32) :: real]"
    by simp_all
  have c1: "clamp_unit (fmul (- 3) (auto_gain (find_peak [2, - 3, 1 / 2] 0))) = - 1"
  proof -
    have r1: "fmul (- 3) 1 = - 3"
      unfolding fmul_def by (rule fl64_eqI [where e = "1" and m = 6755399441055744]) simp_all
    show ?thesis
      by (simp add: clamp_unit_def auto_gain_def noise_floor_literal gain_ceiling_literal
          target_peak_literal r1)
  qed
  have c2: "clamp_unit (fmul (- (5 / 32)) (auto_gain (find_peak [7 / 32, - (5 / 32)] 0))) < 0"
  proof -
    have r1: "fmul (- (5 / 32)) (7205759403792793 / 2251799813685248) =
        - (9007199254740991 / 18014398509481984)"
      unfolding fmul_def by (rule fl64_eqI [where e = "- 2" and m = 9007199254740991]) simp_all
    show ?thesis
      by (simp add: clamp_unit_def gain_example r1)
  qed
  have c3: "clamp_unit 2 = 1"
    by (simp add: clamp_unit_def)
  have e1: "sint (floatTo16BitPCM [2, - 3, 1 / 2] ! 1) =
      js_trunc (fmul (clamp_unit (fmul (- 3) (auto_gain (find_peak [2, - 3, 1 / 2] 0)))) 32768)"
    using quantize_within_int16 [of "[2, - 3, 1 / 2]"] i1 c1 by simp
  have e2: "sint (floatTo16BitPCM [7 / 32, - (5 / 32)] ! 1) =
      js_trunc (fmul (clamp_unit (fmul (- (5 / 32))
        (auto_gain (find_peak [7 / 32, - (5 / 32)] 0)))) 32768)"
    using quantize_within_int16 [of "[7 / 32, - (5 / 32)]"] j1 c2 by simp
  have e3: "sint (floatTo16BitPCM_offscreen [2, - 3, 1 / 2] ! 0) =
      js_trunc (fmul (clamp_unit 2) 32767)"
    using quantize_within_int16 [of "[2, - 3, 1 / 2]"] i0 c3 by simp
  have l1: "length (floatTo16BitPCM [2, - 3, 1 / 2]) = 3"
    and l2: "length (floatTo16BitPCM [7 / 32, - (5 / 32)]) = 2"
    and l3: "length (floatTo16BitPCM_offscreen [2, - 3, 1 / 2]) = 3"
    by (simp_all add: floatTo16BitPCM_def floatTo16BitPCM_offscreen_def Let_def)
  have n1: "sint (floatTo16BitPCM [2, - 3, 1 / 2] ! 1) = - 32768"
    using arg_cong [OF quantize_clip_example, of "\<lambda>l. l ! 1"] by (simp add: l1)
  have n2: "sint (floatTo16BitPCM [7 / 32, - (5 / 32)] ! 1) = - 16383"
    using arg_cong [OF quantize_example, of "\<lambda>l. l ! 1"] by (simp add: l2)
  have n3: "sint (floatTo16BitPCM_offscreen [2, - 3, 1 / 2] ! 0) = 32767"
    using arg_cong [OF quantize_offscreen_example, of "\<lambda>l. l ! 0"] by (simp add: l3)
  show ?thesis
    using quantize_clip_example quantize_offscreen_example quantize_example c1
      e1 [symmetric] e2 [symmetric] e3 [symmetric] n1 n2 n3 by simp
qed

section \<open>Verification of the frame loop\<close>

lemma whole_frames_short: "length xs < n \<Longrightarrow> whole_frames n xs = []"
  by (subst whole_frames.simps) simp

lemma whole_frames_step:
  "0 < n \<Longrightarrow> n \<le> length xs \<Longrightarrow> whole_frames n xs = take n xs # whole_frames n (drop n xs)"
  by (subst whole_frames.simps) simp

lemma length_whole_frames: "0 < n \<Longrightarrow> length (whole_frames n xs) = length xs div n"
proof (induction n xs rule: whole_frames.induct)
  case (1 n xs)
  show ?case
  proof (cases "length xs < n")
    case True
    then show ?thesis by (simp add: whole_frames_short)
  next
    case False
    then have ge: "n \<le> length xs" by simp
    have "length (whole_frames n (drop n xs)) = length (drop n xs) div n"
      using "1.IH" "1.prems" False by simp
    then have "length (whole_frames n xs) = Suc ((length xs - n) div n)"
      using whole_frames_step [OF "1.prems" ge] by simp
    also have "\<dots> = length xs div n"
      using ge "1.prems" by (simp add: le_div_geq)
    finally show ?thesis .
  qed
qed

lemma whole_frames_sizes: "f \<in> set (whole_frames n xs) \<Longrightarrow> length f = n"
proof (induction n xs rule: whole_frames.induct)
  case (1 n xs)
  show ?case
  proof (cases "n = 0 \<or> length xs < n")
    case True
    then have "whole_frames n xs = []" by (subst whole_frames.simps) simp
    with "1.prems" show ?thesis by simp
  next
    case False
    then have eq: "whole_frames n xs = take n xs # whole_frames n (drop n xs)"
      by (subst whole_frames.simps) simp
    from "1.prems" [unfolded eq] have "f = take n xs \<or> f \<in> set (whole_frames n (drop n xs))"
      by simp
    then show ?thesis
    proof
      assume "f = take n xs"
      then show ?thesis using False by simp
    next
      assume "f \<in> set (whole_frames n (drop n xs))"
      then show ?thesis using "1.IH" False by simp
    qed
  qed
qed

lemma whole_frames_append:
  "0 < n \<Longrightarrow>
   whole_frames n (xs @ ys) =
     whole_frames n xs @ whole_frames n (drop (length xs div n * n) xs @ ys)"
proof (induction n xs rule: whole_frames.induct)
  case (1 n xs)
  show ?case
  proof (cases "length xs < n")
    case True
    then show ?thesis by (simp add: whole_frames_short)
  next
    case False
    then have ge: "n \<le> length xs" by simp
    have l: "whole_frames n (xs @ ys) = take n xs # whole_frames n (drop n xs @ ys)"
      using whole_frames_step [of n "xs @ ys"] "1.prems" ge by simp
    have ih: "whole_frames n (drop n xs @ ys) =
        whole_frames n (drop n xs) @
        whole_frames n (drop (length (drop n xs) div n * n) (drop n xs) @ ys)"
      using "1.IH" "1.prems" False by simp
    have d: "length (drop n xs) div n * n + n = length xs div n * n"
      using ge "1.prems" by (simp add: le_div_geq)
    have dd: "drop (length (drop n xs) div n * n) (drop n xs) = drop (length xs div n * n) xs"
      using d by (simp add: add.commute)
    show ?thesis
      unfolding l ih dd using whole_frames_step [OF "1.prems" ge] by simp
  qed
qed

lemma subarray_frame:
  assumes "0 \<le> offset" and "0 < fs" and "offset + fs \<le> int (length q)"
  shows "subarray q offset (offset + fs) = take (nat fs) (drop (nat offset) q)"
proof -
  have b: "rel_index (length q) offset = nat offset"
    using assms by (simp add: rel_index_def)
  have e: "rel_index (length q) (offset + fs) = nat offset + nat fs"
    using assms by (simp add: rel_index_def nat_add_distrib)
  show ?thesis
    by (simp add: subarray_def b e)
qed

lemma send_frames_spec:
  assumes "0 < fs" and "0 \<le> offset" and "offset \<le> int (length q)"
  shows "send_frames fs q offset b sent =
     Some (offset + int (length (whole_frames (nat fs) (drop (nat offset) q))) * fs,
           b + 2 * nat fs * length (whole_frames (nat fs) (drop (nat offset) q)),
           sent @ map floatTo16BitPCM (whole_frames (nat fs) (drop (nat offset) q)))"
  using assms
proof (induction "nat (int (length q) - offset)" arbitrary: offset b sent rule: less_induct)
  case less
  show ?case
  proof (cases "int (length q) - offset \<ge> fs")
    case False
    then have "length (drop (nat offset) q) < nat fs"
      using less.prems by simp
    then have "whole_frames (nat fs) (drop (nat offset) q) = []"
      by (rule whole_frames_short)
    then show ?thesis
      using False by (subst send_frames.simps) simp
  next
    case True
    define frame where "frame = take (nat fs) (drop (nat offset) q)"
    have sub: "subarray q offset (offset + fs) = frame"
      unfolding frame_def using less.prems True by (intro subarray_frame) simp_all
    have flen: "length frame = nat fs"
      unfolding frame_def using less.prems True by simp
    have step: "send_frames fs q offset b sent =
        send_frames fs q (offset + fs) (b + byteLength16 (floatTo16BitPCM frame))
          (sent @ [floatTo16BitPCM frame])"
      using True by (subst send_frames.simps) (simp add: sub Let_def)
    have ih: "send_frames fs q (offset + fs) (b + byteLength16 (floatTo16BitPCM frame))
          (sent @ [floatTo16BitPCM frame]) =
       Some (offset + fs + int (length (whole_frames (nat fs) (drop (nat (offset + fs)) q))) * fs,
           b + byteLength16 (floatTo16BitPCM frame) +
             2 * nat fs * length (whole_frames (nat fs) (drop (nat (offset + fs)) q)),
           (sent @ [floatTo16BitPCM frame]) @
             map floatTo16BitPCM (whole_frames (nat fs) (drop (nat (offset + fs)) q)))"
      using less.prems True by (intro less.hyps) simp_all
    have dr: "drop (nat (offset + fs)) q = drop (nat fs) (drop (nat offset) q)"
      using less.prems by (simp add: nat_add_distrib add.commute)
    have wf: "whole_frames (nat fs) (drop (nat offset) q) =
        frame # whole_frames (nat fs) (drop (nat (offset + fs)) q)"
      unfolding dr frame_def using less.prems True by (intro whole_frames_step) simp_all
    have bl: "byteLength16 (floatTo16BitPCM frame) = 2 * nat fs"
      by (simp add: byteLength16_def floatTo16BitPCM_def Let_def flen)
    note step
    also note ih
    also have "Some (offset + fs +
             int (length (whole_frames (nat fs) (drop (nat (offset + fs)) q))) * fs,
           b + byteLength16 (floatTo16BitPCM frame) +
             2 * nat fs * length (whole_frames (nat fs) (drop (nat (offset + fs)) q)),
           (sent @ [floatTo16BitPCM frame]) @
             map floatTo16BitPCM (whole_frames (nat fs) (drop (nat (offset + fs)) q))) =
       Some (offset + int (length (whole_frames (nat fs) (drop (nat offset) q))) * fs,
           b + 2 * nat fs * length (whole_frames (nat fs) (drop (nat offset) q)),
           sent @ map floatTo16BitPCM (whole_frames (nat fs) (drop (nat offset) q)))"
      unfolding wf bl by (simp add: algebra_simps)
    finally show ?thesis .
  qed
qed

lemma onAudioBlock_spec:
  fixes p :: processor and r :: real and block :: samples and fs :: int
  assumes fs: "0 < fs" and inv: "length (bufferQueue p) < nat fs"
  defines "q \<equiv> bufferQueue p @ resampled_part r (targetSampleRate p) block"
  shows "onAudioBlock r fs p block =
     Some (p\<lparr>bufferQueue := drop (length q div nat fs * nat fs) q,
             bytesSent := bytesSent p + 2 * nat fs * (length q div nat fs)\<rparr>,
           map floatTo16BitPCM (whole_frames (nat fs) q))"
proof (cases "length block = 0 \<or> resampleFloat32 block r (targetSampleRate p) = None")
  case True
  then have q: "q = bufferQueue p"
    by (auto simp: q_def resampled_part_def)
  have "onAudioBlock r fs p block = Some (p, [])"
    using True by (auto simp: onAudioBlock_def)
  moreover have "length q div nat fs = 0" and "whole_frames (nat fs) q = []"
    using inv by (simp_all add: q whole_frames_short)
  ultimately show ?thesis
    by (simp add: q)
next
  case False
  then obtain resampled where rs: "resampleFloat32 block r (targetSampleRate p) = Some resampled"
    and nz: "length block \<noteq> 0"
    by auto
  have q: "q = bufferQueue p @ resampled"
    using nz rs by (simp add: q_def resampled_part_def)
  have queue: "(if bufferQueue p = [] then resampled else bufferQueue p @ resampled) = q"
    by (simp add: q)
  define n where "n = length (whole_frames (nat fs) q)"
  have n: "n = length q div nat fs"
    unfolding n_def using fs by (intro length_whole_frames) simp
  have loop: "send_frames fs q 0 (bytesSent p) [] =
      Some (int n * fs, bytesSent p + 2 * nat fs * n, map floatTo16BitPCM (whole_frames (nat fs) q))"
    using send_frames_spec [of fs 0 q "bytesSent p" "[]"] fs by (simp add: n_def)
  have rest: "(if int n * fs > 0 then slice_from q (int n * fs) else q) = drop (n * nat fs) q"
  proof (cases "n = 0")
    case True
    then show ?thesis by simp
  next
    case False
    then have pos: "0 < int n * fs" using fs by simp
    have "nat (int n * fs) = n * nat fs"
      using fs by (simp add: nat_mult_distrib)
    moreover have "n * nat fs \<le> length q"
      unfolding n by simp
    ultimately show ?thesis
      using pos by (simp add: slice_from_def rel_index_def)
  qed
  show ?thesis
    using nz rs by (simp add: onAudioBlock_def queue loop rest n [symmetric])
qed

lemma feed_blocks_spec:
  fixes p :: processor and r :: real and blocks :: "samples list" and fs :: int
  assumes fs: "0 < fs" and inv: "length (bufferQueue p) < nat fs"
  defines "q \<equiv> bufferQueue p @ concat (map (resampled_part r (targetSampleRate p)) blocks)"
  shows "\<exists>p'. feed_blocks r fs p blocks =
           Some (p', map floatTo16BitPCM (whole_frames (nat fs) q)) \<and>
         bufferQueue p' = drop (length q div nat fs * nat fs) q \<and>
         targetSampleRate p' = targetSampleRate p"
  unfolding q_def using inv
proof (induction blocks arbitrary: p)
  case Nil
  then show ?case
    by (simp add: whole_frames_short)
next
  case (Cons b blocks)
  define q1 where "q1 = bufferQueue p @ resampled_part r (targetSampleRate p) b"
  define p1 where "p1 = p\<lparr>bufferQueue := drop (length q1 div nat fs * nat fs) q1,
             bytesSent := bytesSent p + 2 * nat fs * (length q1 div nat fs)\<rparr>"
  define rest where "rest = concat (map (resampled_part r (targetSampleRate p)) blocks)"
  have step: "onAudioBlock r fs p b = Some (p1, map floatTo16BitPCM (whole_frames (nat fs) q1))"
    unfolding p1_def q1_def by (rule onAudioBlock_spec [OF fs Cons.prems])
  have nfs: "0 < nat fs" using fs by simp
  have b1: "bufferQueue p1 = drop (length q1 div nat fs * nat fs) q1"
    and t1: "targetSampleRate p1 = targetSampleRate p"
    by (simp_all add: p1_def)
  have "length (bufferQueue p1) = length q1 mod nat fs"
    unfolding b1 by (simp add: minus_div_mult_eq_mod)
  then have inv1: "length (bufferQueue p1) < nat fs"
    using nfs by simp
  obtain p' where f: "feed_blocks r fs p1 blocks =
           Some (p', map floatTo16BitPCM (whole_frames (nat fs) (bufferQueue p1 @ rest)))"
    and bq: "bufferQueue p' =
           drop (length (bufferQueue p1 @ rest) div nat fs * nat fs) (bufferQueue p1 @ rest)"
    and tp: "targetSampleRate p' = targetSampleRate p1"
    using Cons.IH [OF inv1] unfolding rest_def t1 by blast
  have all: "bufferQueue p @ concat (map (resampled_part r (targetSampleRate p)) (b # blocks)) =
      q1 @ rest"
    by (simp add: q1_def rest_def)
  have frames: "whole_frames (nat fs) (q1 @ rest) =
      whole_frames (nat fs) q1 @ whole_frames (nat fs) (bufferQueue p1 @ rest)"
    unfolding b1 by (rule whole_frames_append [OF nfs])
  define k where "k = length q1 div nat fs * nat fs"
  have k_le: "k \<le> length q1"
    unfolding k_def by simp
  have k_dvd: "k mod nat fs = 0"
    unfolding k_def by simp
  have split: "q1 @ rest = take k q1 @ (bufferQueue p1 @ rest)"
    unfolding b1 k_def [symmetric] by simp
  have len_split: "length (q1 @ rest) = k + length (bufferQueue p1 @ rest)"
    unfolding b1 k_def [symmetric] using k_le by simp
  have divs: "length (q1 @ rest) div nat fs * nat fs =
      k + length (bufferQueue p1 @ rest) div nat fs * nat fs"
    unfolding len_split k_def using nfs by (simp add: add_mult_distrib)
  have drops: "drop (length (q1 @ rest) div nat fs * nat fs) (q1 @ rest) =
      drop (length (bufferQueue p1 @ rest) div nat fs * nat fs) (bufferQueue p1 @ rest)"
  proof -
    have "drop (k + m) (q1 @ rest) = drop m (bufferQueue p1 @ rest)" for m
    proof -
      have "drop (k + m) (q1 @ rest) = drop m (drop k (q1 @ rest))"
        by (subst drop_drop) (simp only: add.commute)
      also have "drop k (q1 @ rest) = bufferQueue p1 @ rest"
        unfolding b1 k_def [symmetric] using k_le by simp
      finally show ?thesis .
    qed
    then show ?thesis
      unfolding divs .
  qed
  have "feed_blocks r fs p (b # blocks) =
      Some (p', map floatTo16BitPCM (whole_frames (nat fs) (q1 @ rest)))"
    by (simp add: step f frames)
  then show ?case
    unfolding all using bq tp t1 drops by simp
qed

lemma block_one_resampled:
  "resampleFloat32 [1 / 2, 1 / 2, 1 / 2, - (1 / 4), - (1 / 4), - (1 / 4)] 48000 16000 =
     Some [1 / 2, - (1 / 4)]"
proof -
  have v1: "valid_rate 48000" and v2: "valid_rate 16000"
    using valid_rate_of_nat [of 48000] valid_rate_of_nat [of 16000] by simp_all
  have r1: "fdiv 48000 16000 = 3"
    unfolding fdiv_def by (rule fl64_eqI [where e = "1" and m = 6755399441055744]) simp_all
  have r2: "fdiv 6 3 = 2"
    unfolding fdiv_def by (rule fl64_eqI [where e = "1" and m = 4503599627370496]) simp_all
  have r3: "fmul 0 3 = 0"
    by (simp add: fmul_def fl64_zero)
  have r4: "fmul 1 3 = 3"
    unfolding fmul_def by (rule fl64_eqI [where e = "1" and m = 6755399441055744]) simp_all
  have r5: "fadd 0 (1 / 2) = 1 / 2"
    unfolding fadd_def by (rule fl64_eqI [where e = "- 1" and m = 4503599627370496]) simp_all
  have r6: "fadd (1 / 2) (1 / 2) = 1"
    unfolding fadd_def by (rule fl64_eqI [where e = "0" and m = 4503599627370496]) simp_all
  have r7: "fadd 1 (1 / 2) = 3 / 2"
    unfolding fadd_def by (rule fl64_eqI [where e = "0" and m = 6755399441055744]) simp_all
  have r8: "fdiv (3 / 2) 3 = 1 / 2"
    unfolding fdiv_def by (rule fl64_eqI [where e = "- 1" and m = 4503599627370496]) simp_all
  have r9: "fl32 (1 / 2) = 1 / 2"
    by (rule fl32_eqI [where e = "- 1" and m = 8388608]) simp_all
  have r10: "fmul 2 3 = 6"
    unfolding fmul_def by (rule fl64_eqI [where e = "2" and m = 6755399441055744]) simp_all
  have r11: "fadd 0 (- (1 / 4)) = - (1 / 4)"
    unfolding fadd_def by (rule fl64_eqI [where e = "- 2" and m = 4503599627370496]) simp_all
  have r12: "fadd (- (1 / 4)) (- (1 / 4)) = - (1 / 2)"
    unfolding fadd_def by (rule fl64_eqI [where e = "- 1" and m = 4503599627370496]) simp_all
  have r13: "fadd (- (1 / 2)) (- (1 / 4)) = - (3 / 4)"
    unfolding fadd_def by (rule fl64_eqI [where e = "- 1" and m = 6755399441055744]) simp_all
  have r14: "fdiv (- (3 / 4)) 3 = - (1 / 4)"
    unfolding fdiv_def by (rule fl64_eqI [where e = "- 2" and m = 4503599627370496]) simp_all
  have r15: "fl32 (- (1 / 4)) = - (1 / 4)"
    by (rule fl32_eqI [where e = "- 2" and m = 8388608]) simp_all
  note rs =
    r1 r2 r3 r4 r5 r6 r7 r8 r9 r10 r11 r12 r13 r14 r15
  have l: "js_round (fdiv (real (length [1 / 2, 1 / 2, 1 / 2, - (1 / 4), - (1 / 4), - (1 / 4)]))
      (fdiv 48000 16000)) = 2"
    by (simp add: rs js_round_def)
  have "resampleFloat32 [1 / 2, 1 / 2, 1 / 2, - (1 / 4), - (1 / 4), - (1 / 4)] 48000 16000 =
      Some (map (\<lambda>i. rounded_average (rounded_window [1 / 2, 1 / 2, 1 / 2, - (1 / 4), - (1 / 4), - (1 / 4)]
                   (fdiv 48000 16000) i)) [0 ..< nat 2])"
    using resampleFloat32_windows(2) [OF v1 v2, of "[1 / 2, 1 / 2, 1 / 2, - (1 / 4), - (1 / 4), - (1
        / 4)]"]
    unfolding l by simp
  then show ?thesis
    by (simp add: rounded_average_def rounded_window_def rs js_round_def upt_rec)
qed

lemma block_two_resampled:
  "resampleFloat32 [1, 1, 1, 3 / 4, 3 / 4, 3 / 4, 1 / 8, 1 / 8, 1 / 8] 48000 16000 =
     Some [1, 3 / 4, 1 / 8]"
proof -
  have v1: "valid_rate 48000" and v2: "valid_rate 16000"
    using valid_rate_of_nat [of 48000] valid_rate_of_nat [of 16000] by simp_all
  have r1: "fdiv 48000 16000 = 3"
    unfolding fdiv_def by (rule fl64_eqI [where e = "1" and m = 6755399441055744]) simp_all
  have r2: "fdiv 9 3 = 3"
    unfolding fdiv_def by (rule fl64_eqI [where e = "1" and m = 6755399441055744]) simp_all
  have r3: "fmul 0 3 = 0"
    by (simp add: fmul_def fl64_zero)
  have r4: "fmul 1 3 = 3"
    unfolding fmul_def by (rule fl64_eqI [where e = "1" and m = 6755399441055744]) simp_all
  have r5: "fadd 0 1 = 1"
    unfolding fadd_def by (rule fl64_eqI [where e = "0" and m = 4503599627370496]) simp_all
  have r6: "fadd 1 1 = 2"
    unfolding fadd_def by (rule fl64_eqI [where e = "1" and m = 4503599627370496]) simp_all
  have r7: "fadd 2 1 = 3"
    unfolding fadd_def by (rule fl64_eqI [where e = "1" and m = 6755399441055744]) simp_all
  have r8: "fdiv 3 3 = 1"
    unfolding fdiv_def by (rule fl64_eqI [where e = "0" and m = 4503599627370496]) simp_all
  have r9: "fl32 1 = 1"
    by (rule fl32_eqI [where e = "0" and m = 8388608]) simp_all
  have r10: "fmul 2 3 = 6"
    unfolding fmul_def by (rule fl64_eqI [where e = "2" and m = 6755399441055744]) simp_all
  have r11: "fadd 0 (3 / 4) = 3 / 4"
    unfolding fadd_def by (rule fl64_eqI [where e = "- 1" and m = 6755399441055744]) simp_all
  have r12: "fadd (3 / 4) (3 / 4) = 3 / 2"
    unfolding fadd_def by (rule fl64_eqI [where e = "0" and m = 6755399441055744]) simp_all
  have r13: "fadd (3 / 2) (3 / 4) = 9 / 4"
    unfolding fadd_def by (rule fl64_eqI [where e = "1" and m = 5066549580791808]) simp_all
  have r14: "fdiv (9 / 4) 3 = 3 / 4"
    unfolding fdiv_def by (rule fl64_eqI [where e = "- 1" and m = 6755399441055744]) simp_all
  have r15: "fl32 (3 / 4) = 3 / 4"
    by (rule fl32_eqI [where e = "- 1" and m = 12582912]) simp_all
  have r16: "fmul 3 3 = 9"
    unfolding fmul_def by (rule fl64_eqI [where e = "3" and m = 5066549580791808]) simp_all
  have r17: "fadd 0 (1 / 8) = 1 / 8"
    unfolding fadd_def by (rule fl64_eqI [where e = "- 3" and m = 4503599627370496]) simp_all
  have r18: "fadd (1 / 8) (1 / 8) = 1 / 4"
    unfolding fadd_def by (rule fl64_eqI [where e = "- 2" and m = 4503599627370496]) simp_all
  have r19: "fadd (1 / 4) (1 / 8) = 3 / 8"
    unfolding fadd_def by (rule fl64_eqI [where e = "- 2" and m = 6755399441055744]) simp_all
  have r20: "fdiv (3 / 8) 3 = 1 / 8"
    unfolding fdiv_def by (rule fl64_eqI [where e = "- 3" and m = 4503599627370496]) simp_all
  have r21: "fl32 (1 / 8) = 1 / 8"
    by (rule fl32_eqI [where e = "- 3" and m = 8388608]) simp_all
  note rs =
    r1 r2 r3 r4 r5 r6 r7 r8 r9 r10 r11 r12 r13 r14 r15 r16 r17 r18 r19 r20 r21
  have l: "js_round (fdiv (real (length [1, 1, 1, 3 / 4, 3 / 4, 3 / 4, 1 / 8, 1 / 8, 1 / 8]))
      (fdiv 48000 16000)) = 3"
    by (simp add: rs js_round_def)
  have "resampleFloat32 [1, 1, 1, 3 / 4, 3 / 4, 3 / 4, 1 / 8, 1 / 8, 1 / 8] 48000 16000 =
      Some (map (\<lambda>i. rounded_average (rounded_window [1, 1, 1, 3 / 4, 3 / 4, 3 / 4, 1 / 8, 1 / 8, 1 / 8]
                   (fdiv 48000 16000) i)) [0 ..< nat 3])"
    using resampleFloat32_windows(2) [OF v1 v2, of "[1, 1, 1, 3 / 4, 3 / 4, 3 / 4, 1 / 8, 1 / 8, 1 /
        8]"]
    unfolding l by simp
  then show ?thesis
    by (simp add: rounded_average_def rounded_window_def rs js_round_def upt_rec)
qed

lemma block_three_resampled:
  "resampleFloat32 [1 / 8, 1 / 8, 1 / 8] 48000 16000 =
     Some [1 / 8]"
proof -
  have v1: "valid_rate 48000" and v2: "valid_rate 16000"
    using valid_rate_of_nat [of 48000] valid_rate_of_nat [of 16000] by simp_all
  have r1: "fdiv 48000 16000 = 3"
    unfolding fdiv_def by (rule fl64_eqI [where e = "1" and m = 6755399441055744]) simp_all
  have r2: "fdiv 3 3 = 1"
    unfolding fdiv_def by (rule fl64_eqI [where e = "0" and m = 4503599627370496]) simp_all
  have r3: "fmul 0 3 = 0"
    by (simp add: fmul_def fl64_zero)
  have r4: "fmul 1 3 = 3"
    unfolding fmul_def by (rule fl64_eqI [where e = "1" and m = 6755399441055744]) simp_all
  have r5: "fadd 0 (1 / 8) = 1 / 8"
    unfolding fadd_def by (rule fl64_eqI [where e = "- 3" and m = 4503599627370496]) simp_all
  have r6: "fadd (1 / 8) (1 / 8) = 1 / 4"
    unfolding fadd_def by (rule fl64_eqI [where e = "- 2" and m = 4503599627370496]) simp_all
  have r7: "fadd (1 / 4) (1 / 8) = 3 / 8"
    unfolding fadd_def by (rule fl64_eqI [where e = "- 2" and m = 6755399441055744]) simp_all
  have r8: "fdiv (3 / 8) 3 = 1 / 8"
    unfolding fdiv_def by (rule fl64_eqI [where e = "- 3" and m = 4503599627370496]) simp_all
  have r9: "fl32 (1 / 8) = 1 / 8"
    by (rule fl32_eqI [where e = "- 3" and m = 8388608]) simp_all
  note rs =
    r1 r2 r3 r4 r5 r6 r7 r8 r9
  have l: "js_round (fdiv (real (length [1 / 8, 1 / 8, 1 / 8]))
      (fdiv 48000 16000)) = 1"
    by (simp add: rs js_round_def)
  have "resampleFloat32 [1 / 8, 1 / 8, 1 / 8] 48000 16000 =
      Some (map (\<lambda>i. rounded_average (rounded_window [1 / 8, 1 / 8, 1 / 8]
                   (fdiv 48000 16000) i)) [0 ..< nat 1])"
    using resampleFloat32_windows(2) [OF v1 v2, of "[1 / 8, 1 / 8, 1 / 8]"]
    unfolding l by simp
  then show ?thesis
    by (simp add: rounded_average_def rounded_window_def rs js_round_def upt_rec)
qed

lemma frame_one_quantized:
  "map sint (floatTo16BitPCM [1 / 2, - (1 / 4)]) = [16383, - 8192]"
proof -
  have r1: "fmul (1 / 2) 1 = 1 / 2"
    unfolding fmul_def by (rule fl64_eqI [where e = "- 1" and m = 4503599627370496]) simp_all
  have r2: "fmul (1 / 2) 32767 = 32767 / 2"
    unfolding fmul_def by (rule fl64_eqI [where e = "13" and m = 9006924376834048]) simp_all
  have r3: "fmul (- (1 / 4)) 1 = - (1 / 4)"
    unfolding fmul_def by (rule fl64_eqI [where e = "- 2" and m = 4503599627370496]) simp_all
  have r4: "fmul (- (1 / 4)) 32768 = - 8192"
    unfolding fmul_def by (rule fl64_eqI [where e = "13" and m = 4503599627370496]) simp_all
  show ?thesis
    by (simp add: floatTo16BitPCM_def Let_def auto_gain_def pcm_sample_def clamp_unit_def
        scale_int16_def to_int16_def js_trunc_def
        noise_floor_literal gain_ceiling_literal target_peak_literal
        r1 r2 r3 r4)
qed

lemma frame_two_quantized:
  "map sint (floatTo16BitPCM [1, 3 / 4]) = [32767, 24575]"
proof -
  have r1: "fmul 1 1 = 1"
    unfolding fmul_def by (rule fl64_eqI [where e = "0" and m = 4503599627370496]) simp_all
  have r2: "fmul 1 32767 = 32767"
    unfolding fmul_def by (rule fl64_eqI [where e = "14" and m = 9006924376834048]) simp_all
  have r3: "fmul (3 / 4) 1 = 3 / 4"
    unfolding fmul_def by (rule fl64_eqI [where e = "- 1" and m = 6755399441055744]) simp_all
  have r4: "fmul (3 / 4) 32767 = 98301 / 4"
    unfolding fmul_def by (rule fl64_eqI [where e = "14" and m = 6755193282625536]) simp_all
  show ?thesis
    by (simp add: floatTo16BitPCM_def Let_def auto_gain_def pcm_sample_def clamp_unit_def
        scale_int16_def to_int16_def js_trunc_def
        noise_floor_literal gain_ceiling_literal target_peak_literal
        r1 r2 r3 r4)
qed

lemma frame_three_quantized:
  "map sint (floatTo16BitPCM [1 / 8, 1 / 8]) = [22936, 22936]"
proof -
  have r1: "fdiv (3152519739159347 / 4503599627370496) (1 / 8) =
      3152519739159347 / 562949953421312"
    unfolding fdiv_def by (rule fl64_eqI [where e = "2" and m = 6305039478318694]) simp_all
  have r2: "fmul (1 / 8) (3152519739159347 / 562949953421312) =
      3152519739159347 / 4503599627370496"
    unfolding fmul_def by (rule fl64_eqI [where e = "- 1" and m = 6305039478318694]) simp_all
  have r3: "fmul (3152519739159347 / 4503599627370496) 32767 = 6304847063783833 / 274877906944"
    unfolding fmul_def by (rule fl64_eqI [where e = "14" and m = 6304847063783833]) simp_all
  show ?thesis
    by (simp add: floatTo16BitPCM_def Let_def auto_gain_def pcm_sample_def clamp_unit_def
        scale_int16_def to_int16_def js_trunc_def
        noise_floor_literal gain_ceiling_literal target_peak_literal
        r1 r2 r3)
qed

lemma default_frame_size: "frame_samples DEFAULT_SAMPLE_RATE = 320"
proof -
  have r1: "fmul 16000 20 = 320000"
    unfolding fmul_def by (rule fl64_eqI [where e = "18" and m = 5497558138880000]) simp_all
  have r2: "fdiv 320000 1000 = 320"
    unfolding fdiv_def by (rule fl64_eqI [where e = "8" and m = 5629499534213120]) simp_all
  show ?thesis
    by (simp add: frame_samples_def DEFAULT_SAMPLE_RATE_def js_round_def r1 r2)
qed

text \<open>
  C4: for valid rates, a stream of blocks fed to the block handler of a fresh processor
  emits exactly the whole frames of the resampled stream, that is, the conversions of its
  consecutive slices of \<open>frameSize\<close> samples: \<open>total div frameSize\<close> of them, where
  \<open>total\<close> is the resampled sample count. The samples after the last whole frame,
  \<open>total mod frameSize\<close> of them, stay in the accumulation buffer, which is empty when
  the total is an exact multiple; and the handler slices the next block's frames from
  the buffered remainder followed by the resampled block. A block has fewer than
  \<open>2 ^ 20\<close> samples; those of the worklet have 128.
\<close>

theorem frame_emission:
  fixes p :: processor and actualRate :: real and blocks :: "samples list"
    and frameSamples :: int
  assumes fs: "0 < frameSamples" and empty: "bufferQueue p = []"
    and rates: "valid_rate actualRate" "valid_rate (targetSampleRate p)"
    and sizes: "\<forall>b \<in> set blocks. length b < 2 ^ 20"
  shows "\<exists>p' sent.
     feed_blocks actualRate frameSamples p blocks = Some (p', sent) \<and>
     sent = map floatTo16BitPCM (whole_frames (nat frameSamples)
              (concat (map (resampled_part actualRate (targetSampleRate p)) blocks))) \<and>
     bufferQueue p' =
       drop (resampled_total actualRate (targetSampleRate p) blocks div nat frameSamples *
               nat frameSamples)
         (concat (map (resampled_part actualRate (targetSampleRate p)) blocks)) \<and>
     targetSampleRate p' = targetSampleRate p \<and>
     length sent = resampled_total actualRate (targetSampleRate p) blocks div nat frameSamples \<and>
     (\<forall>f \<in> set sent. length f = nat frameSamples) \<and>
     length (bufferQueue p') =
       resampled_total actualRate (targetSampleRate p) blocks mod nat frameSamples \<and>
     (nat frameSamples dvd resampled_total actualRate (targetSampleRate p) blocks \<longrightarrow>
        bufferQueue p' = []) \<and>
     (\<forall>block. length block < 2 ^ 20 \<longrightarrow>
        (\<exists>p'' sent'.
           onAudioBlock actualRate frameSamples p' block = Some (p'', sent') \<and>
           sent' = map floatTo16BitPCM (whole_frames (nat frameSamples)
                     (bufferQueue p' @ resampled_part actualRate (targetSampleRate p') block)) \<and>
           bufferQueue p'' =
             drop (length (bufferQueue p' @
                     resampled_part actualRate (targetSampleRate p') block) div
                   nat frameSamples * nat frameSamples)
               (bufferQueue p' @ resampled_part actualRate (targetSampleRate p') block)))"
proof -
  define n where "n = nat frameSamples"
  define q where "q = concat (map (resampled_part actualRate (targetSampleRate p)) blocks)"
  define total where "total = resampled_total actualRate (targetSampleRate p) blocks"
  have npos: "0 < n"
    using fs by (simp add: n_def)
  have len_q: "length q = total"
    by (simp add: q_def total_def resampled_total_def length_concat comp_def)
  have inv: "length (bufferQueue p) < nat frameSamples"
    using fs empty by simp
  obtain p' where f: "feed_blocks actualRate frameSamples p blocks =
        Some (p', map floatTo16BitPCM (whole_frames n q))"
    and bq: "bufferQueue p' = drop (length q div n * n) q"
    and tp: "targetSampleRate p' = targetSampleRate p"
    using feed_blocks_spec [OF fs inv, of actualRate blocks] unfolding empty n_def q_def
    by auto
  have bq': "bufferQueue p' = drop (total div n * n) q"
    using bq by (simp add: len_q)
  have count: "length (map floatTo16BitPCM (whole_frames n q)) = total div n"
    using length_whole_frames [OF npos, of q] by (simp add: len_q)
  have frames: "\<forall>f \<in> set (map floatTo16BitPCM (whole_frames n q)). length f = n"
    using whole_frames_sizes [of _ n q] by (auto simp: floatTo16BitPCM_def Let_def)
  have rem: "length (bufferQueue p') = total mod n"
    unfolding bq using len_q by (simp add: minus_div_mult_eq_mod)
  have exact: "bufferQueue p' = []" if "n dvd total"
    using rem that by simp
  have inv': "length (bufferQueue p') < nat frameSamples"
    using rem npos by (simp add: n_def)
  have nxt: "\<exists>p'' sent'.
        onAudioBlock actualRate frameSamples p' block = Some (p'', sent') \<and>
        sent' = map floatTo16BitPCM (whole_frames (nat frameSamples)
                  (bufferQueue p' @ resampled_part actualRate (targetSampleRate p') block)) \<and>
        bufferQueue p'' =
          drop (length (bufferQueue p' @
                  resampled_part actualRate (targetSampleRate p') block) div nat frameSamples *
                nat frameSamples)
            (bufferQueue p' @ resampled_part actualRate (targetSampleRate p') block)"
    for block
    using onAudioBlock_spec [OF fs inv', of actualRate block] by simp
  show ?thesis
    using f bq' tp count frames rem exact nxt unfolding n_def total_def q_def by blast
qed

text \<open>
  The frame size of the multi-track capture is 320 samples. With a frame size of 2, two
  blocks that resample to \<open>1/2, -1/4\<close> and \<open>1, 3/4, 1/8\<close> give the two frames of the
  first four samples and leave \<open>1/8\<close>; the next block, which resamples to \<open>1/8\<close>, then
  gives the frame of \<open>1/8, 1/8\<close> and leaves nothing. Two blocks that resample to 2 and 2
  samples give two frames and leave none.
\<close>

theorem frame_emission_witness:
  "(0::int) < 2 \<and> valid_rate 48000 \<and> valid_rate 16000 \<and>
   frame_samples DEFAULT_SAMPLE_RATE = 320 \<and>
   resampled_total 48000 16000
     [[1 / 2, 1 / 2, 1 / 2, - (1 / 4), - (1 / 4), - (1 / 4)],
      [1, 1, 1, 3 / 4, 3 / 4, 3 / 4, 1 / 8, 1 / 8, 1 / 8]] = 5 \<and>
   (case feed_blocks 48000 2
           \<lparr>participantId = ''42'', participantName = ''Ana'', track = ''t1'',
            targetSampleRate = 16000, bufferQueue = [], bytesSent = 0, isRunning = True\<rparr>
           [[1 / 2, 1 / 2, 1 / 2, - (1 / 4), - (1 / 4), - (1 / 4)],
            [1, 1, 1, 3 / 4, 3 / 4, 3 / 4, 1 / 8, 1 / 8, 1 / 8]] of
      None \<Rightarrow> False
    | Some (p', sent) \<Rightarrow>
        map (map sint) sent = [[16383, - 8192], [32767, 24575]] \<and>
        bufferQueue p' = [1 / 8] \<and>
        (case onAudioBlock 48000 2 p' [1 / 8, 1 / 8, 1 / 8] of
           None \<Rightarrow> False
         | Some (p'', sent') \<Rightarrow>
             map (map sint) sent' = [[22936, 22936]] \<and> bufferQueue p'' = [])) \<and>
   resampled_total 48000 16000
     [[1 / 2, 1 / 2, 1 / 2, - (1 / 4), - (1 / 4), - (1 / 4)],
      [1 / 2, 1 / 2, 1 / 2, - (1 / 4), - (1 / 4), - (1 / 4)]] = 4 \<and>
   (case feed_blocks 48000 2
           \<lparr>participantId = ''42'', participantName = ''Ana'', track = ''t1'',
            targetSampleRate = 16000, bufferQueue = [], bytesSent = 0, isRunning = True\<rparr>
           [[1 / 2, 1 / 2, 1 / 2, - (1 / 4), - (1 / 4), - (1 / 4)],
            [1 / 2, 1 / 2, 1 / 2, - (1 / 4), - (1 / 4), - (1 / 4)]] of
      None \<Rightarrow> False
    | Some (p', sent) \<Rightarrow>
        map (map sint) sent = [[16383, - 8192], [16383, - 8192]] \<and> bufferQueue p' = [])"
proof -
  define p0 where "p0 = \<lparr>participantId = ''42'', participantName = ''Ana'', track = ''t1'',
            targetSampleRate = 16000, bufferQueue = [], bytesSent = 0, isRunning = True\<rparr>"
  define b1 :: samples where "b1 = [1 / 2, 1 / 2, 1 / 2, - (1 / 4), - (1 / 4), - (1 / 4)]"
  define b2 :: samples where "b2 = [1, 1, 1, 3 / 4, 3 / 4, 3 / 4, 1 / 8, 1 / 8, 1 / 8]"
  define b3 :: samples where "b3 = [1 / 8, 1 / 8, 1 / 8]"
  have h1: "(0::int) < 2"
    by simp
  have h2: "bufferQueue p0 = []" and t0: "targetSampleRate p0 = 16000"
    by (simp_all add: p0_def)
  have h3: "valid_rate 48000" and h4: "valid_rate (targetSampleRate p0)"
    unfolding t0 using valid_rate_of_nat [of 48000] valid_rate_of_nat [of 16000] by simp_all
  have h5: "\<forall>b \<in> set [b1, b2]. length b < 2 ^ 20"
    and h6: "\<forall>b \<in> set [b1, b1]. length b < 2 ^ 20"
    and h7: "length b3 < 2 ^ 20"
    by (simp_all add: b1_def b2_def b3_def)
  have p1: "resampled_part 48000 16000 b1 = [1 / 2, - (1 / 4)]"
    and p2: "resampled_part 48000 16000 b2 = [1, 3 / 4, 1 / 8]"
    and p3: "resampled_part 48000 16000 b3 = [1 / 8]"
    unfolding b1_def b2_def b3_def
    by (simp_all add: resampled_part_def block_one_resampled block_two_resampled
        block_three_resampled)
  have t1: "resampled_total 48000 16000 [b1, b2] = 5"
    and t2: "resampled_total 48000 16000 [b1, b1] = 4"
    by (simp_all add: resampled_total_def p1 p2)
  have w1: "whole_frames 2 [1 / 2, - (1 / 4), 1, 3 / 4, 1 / 8 :: real] =
      [[1 / 2, - (1 / 4)], [1, 3 / 4]]"
    and w2: "whole_frames 2 [1 / 2, - (1 / 4), 1 / 2, - (1 / 4) :: real] =
      [[1 / 2, - (1 / 4)], [1 / 2, - (1 / 4)]]"
    and w3: "whole_frames 2 [1 / 8, 1 / 8 :: real] = [[1 / 8, 1 / 8]]"
    by (simp_all add: whole_frames.simps)
  obtain p' sent where
    f1: "feed_blocks 48000 2 p0 [b1, b2] = Some (p', sent)"
    and s1: "sent = map floatTo16BitPCM (whole_frames (nat 2)
              (concat (map (resampled_part 48000 (targetSampleRate p0)) [b1, b2])))"
    and q1: "bufferQueue p' =
       drop (resampled_total 48000 (targetSampleRate p0) [b1, b2] div nat 2 * nat 2)
         (concat (map (resampled_part 48000 (targetSampleRate p0)) [b1, b2]))"
    and r1: "targetSampleRate p' = targetSampleRate p0"
    and n1: "\<forall>block. length block < 2 ^ 20 \<longrightarrow>
        (\<exists>p'' sent'.
           onAudioBlock 48000 2 p' block = Some (p'', sent') \<and>
           sent' = map floatTo16BitPCM (whole_frames (nat 2)
                     (bufferQueue p' @ resampled_part 48000 (targetSampleRate p') block)) \<and>
           bufferQueue p'' =
             drop (length (bufferQueue p' @
                     resampled_part 48000 (targetSampleRate p') block) div nat 2 * nat 2)
               (bufferQueue p' @ resampled_part 48000 (targetSampleRate p') block))"
    using frame_emission [OF h1 h2 h3 h4 h5] by blast
  have sent: "map (map sint) sent = [[16383, - 8192], [32767, 24575]]"
    unfolding s1 t0 by (simp add: p1 p2 w1 frame_one_quantized frame_two_quantized)
  have rest: "bufferQueue p' = [1 / 8]"
    unfolding q1 t0 t1 by (simp add: p1 p2)
  obtain p'' sent' where
    f3: "onAudioBlock 48000 2 p' b3 = Some (p'', sent')"
    and s3: "sent' = map floatTo16BitPCM (whole_frames (nat 2)
                  (bufferQueue p' @ resampled_part 48000 (targetSampleRate p') b3))"
    and q3: "bufferQueue p'' =
          drop (length (bufferQueue p' @
                  resampled_part 48000 (targetSampleRate p') b3) div nat 2 * nat 2)
            (bufferQueue p' @ resampled_part 48000 (targetSampleRate p') b3)"
    using n1 [rule_format, OF h7] by blast
  have sent': "map (map sint) sent' = [[22936, 22936]]"
    unfolding s3 r1 t0 rest by (simp add: p3 w3 frame_three_quantized)
  have rest': "bufferQueue p'' = []"
    unfolding q3 r1 t0 rest by (simp add: p3)
  obtain p2' sent2 where
    f2: "feed_blocks 48000 2 p0 [b1, b1] = Some (p2', sent2)"
    and s2: "sent2 = map floatTo16BitPCM (whole_frames (nat 2)
              (concat (map (resampled_part 48000 (targetSampleRate p0)) [b1, b1])))"
    and e2: "nat 2 dvd resampled_total 48000 (targetSampleRate p0) [b1, b1] \<longrightarrow>
        bufferQueue p2' = []"
    using frame_emission [OF h1 h2 h3 h4 h6] by blast
  have sent2: "map (map sint) sent2 = [[16383, - 8192], [16383, - 8192]]"
    unfolding s2 t0 by (simp add: p1 w2 frame_one_quantized)
  have rest2: "bufferQueue p2' = []"
    using e2 unfolding t0 t2 by simp
  have c1: "(case feed_blocks 48000 2 p0 [b1, b2] of
      None \<Rightarrow> False
    | Some (p', sent) \<Rightarrow>
        map (map sint) sent = [[16383, - 8192], [32767, 24575]] \<and>
        bufferQueue p' = [1 / 8] \<and>
        (case onAudioBlock 48000 2 p' b3 of
           None \<Rightarrow> False
         | Some (p'', sent') \<Rightarrow>
             map (map sint) sent' = [[22936, 22936]] \<and> bufferQueue p'' = []))"
    unfolding f1 using sent rest f3 sent' rest' by simp
  have c2: "(case feed_blocks 48000 2 p0 [b1, b1] of
      None \<Rightarrow> False
    | Some (p', sent) \<Rightarrow>
        map (map sint) sent = [[16383, - 8192], [16383, - 8192]] \<and> bufferQueue p' = [])"
    unfolding f2 using sent2 rest2 by simp
  show ?thesis
    using h1 h3 h4 default_frame_size t1 c1 t2 c2
    unfolding t0 unfolding p0_def b1_def b2_def b3_def by blast
qed

section \<open>Verification of the correlation engine\<close>

lemma map_has_set: "map_has t (map_set k v m) = (t = k \<or> map_has t m)"
  by (induction m) (auto simp: map_has_def)

lemma map_get_set_same: "map_get k (map_set k v m) = Some v"
  by (induction m) (auto simp: map_get_def)

lemma map_set_new: "\<not> map_has k m \<Longrightarrow> map_set k v m = m @ [(k, v)]"
  by (induction m) (auto simp: map_has_def)

lemma map_has_delete: "map_has t (map_delete k m) = (t \<noteq> k \<and> map_has t m)"
  by (auto simp: map_has_def map_delete_def)

lemma map_get_None: "map_get k m = None \<longleftrightarrow> \<not> map_has k m"
  by (simp add: map_get_def map_has_def map_of_eq_None_iff)

lemma distinct_map_set: "distinct (map fst m) \<Longrightarrow> distinct (map fst (map_set k v m))"
proof (induction m)
  case Nil
  show ?case by simp
next
  case (Cons e m)
  have keys: "set (map fst (map_set k v m)) = insert k (set (map fst m))"
    using map_has_set [of _ k v m] by (auto simp: map_has_def)
  show ?case
    using Cons keys by auto
qed

lemma distinct_map_delete: "distinct (map fst m) \<Longrightarrow> distinct (map fst (map_delete k m))"
  by (simp add: map_delete_def distinct_map_filter)





lemma inspect_example: "inspectTrackLabel ''participant-42'' streamId = Some ''42''"
  by (simp add: inspectTrackLabel_def match_here_def is_word_char_def lower_char_def)

lemma timing_match_None:
  "timing_match timestamp registry = None \<longleftrightarrow>
     (\<forall>e \<in> set registry. TRACK_ASSIGNMENT_WINDOW_MS \<le> \<bar>timestamp - info_timestamp (snd e)\<bar>)"
  by (induction registry) (auto simp: not_less split: if_splits)



text \<open>
  C6 as stated fails where the registry already holds the fallback id: a participant
  found in the document under the id \<^verbatim>\<open>participant-abcdefgh\<close>, and a track
  \<^verbatim>\<open>abcdefgh-1\<close> with no label that arrives 10 seconds later. The track is pending, its
  timer runs, and no participant record is synthesized: the registry is as it was, and
  the track is mapped to the participant found in the document.
\<close>

theorem fallback_synthesis_counterexample:
  "inspectTrackLabel '''' None = None \<and>
   timing_match 10000
     (participantsRegistry (detector_run
        [ParticipantDetected 0 \<lparr>info_participantId = ''participant-abcdefgh'',
           info_name = Some ''abcdefgh'', info_timestamp = 0, info_isFallback = False\<rparr>]
        detector_init)) = None \<and>
   map_has ''abcdefgh-1''
     (pendingTracks (detector_run
        [ParticipantDetected 0 \<lparr>info_participantId = ''participant-abcdefgh'',
           info_name = Some ''abcdefgh'', info_timestamp = 0, info_isFallback = False\<rparr>,
         TrackAdded 10000 ''abcdefgh-1'' '''' None 10000]
        detector_init)) \<and>
   timers (detector_run
        [ParticipantDetected 0 \<lparr>info_participantId = ''participant-abcdefgh'',
           info_name = Some ''abcdefgh'', info_timestamp = 0, info_isFallback = False\<rparr>,
         TrackAdded 10000 ''abcdefgh-1'' '''' None 10000]
        detector_init) =
     [\<lparr>timer_delay = 3000, timer_trackId = ''abcdefgh-1'',
       timer_fallbackId = ''participant-abcdefgh''\<rparr>] \<and>
   detector_run
        [ParticipantDetected 0 \<lparr>info_participantId = ''participant-abcdefgh'',
           info_name = Some ''abcdefgh'', info_timestamp = 0, info_isFallback = False\<rparr>,
         TrackAdded 10000 ''abcdefgh-1'' '''' None 10000,
         TimerFired 13000 0]
        detector_init =
     \<lparr>participantsRegistry =
        [(''participant-abcdefgh'', \<lparr>info_participantId = ''participant-abcdefgh'',
           info_name = Some ''abcdefgh'', info_timestamp = 0, info_isFallback = False\<rparr>)],
      trackToParticipant = [(''abcdefgh-1'', ''participant-abcdefgh'')],
      pendingTracks = [], timers = [],
      outbox = [MEET_PARTICIPANT_JOINED ''participant-abcdefgh'' (Some ''abcdefgh'') 0,
                TRACK_PARTICIPANT_MAPPED ''abcdefgh-1'' ''participant-abcdefgh''
                  (Some ''abcdefgh'') 13000 True]\<rparr>"
  by (simp add: detector_init_def participant_detected_def assignPendingTracks_def
      on_track_added_def direct_match_def inspectTrackLabel_def fallback_timeout_def
      TRACK_ASSIGNMENT_WINDOW_MS_def map_has_def map_delete_def registry_name_def map_get_def
      Let_def)

text \<open>
  C6, amended: a track-added event with no direct label match and no participant whose
  join timestamp is within 3000 ms records the track as pending, with the fallback id
  \<^verbatim>\<open>participant-\<close> followed by the first 8 characters of the track id, and sets a timer
  of 3000 ms. When the timer runs and the track is still pending, the track is mapped to
  the fallback id and leaves the pending tracks, a mapping event tagged
  \<open>isFallback = true\<close> is posted, and a fallback participant record is synthesized
  unless the registry already holds that id, in which case the registry stays as it is.
  When the track is no longer pending, the timer changes nothing.
\<close>

theorem deferred_fallback:
  assumes "direct_match trackLabel streamId (participantsRegistry d) = None"
    and "\<forall>e \<in> set (participantsRegistry d).
           3000 \<le> \<bar>timestamp - info_timestamp (snd e)\<bar>"
  shows "on_track_added now trackId trackLabel streamId timestamp d =
           d\<lparr>pendingTracks :=
                map_set trackId
                  \<lparr>pend_timestamp = timestamp, pend_trackLabel = trackLabel,
                   pend_streamId = streamId,
                   pend_fallbackId = ''participant-'' @ take 8 trackId\<rparr>
                  (pendingTracks d),
             timers := timers d @
                [\<lparr>timer_delay = 3000, timer_trackId = trackId,
                  timer_fallbackId = ''participant-'' @ take 8 trackId\<rparr>]\<rparr> \<and>
         map_has trackId
           (pendingTracks (on_track_added now trackId trackLabel streamId timestamp d)) \<and>
         (\<forall>later fid e.
            map_has trackId (pendingTracks e) \<longrightarrow>
              map_get trackId (trackToParticipant (fallback_timeout later trackId fid e)) =
                Some fid \<and>
              \<not> map_has trackId (pendingTracks (fallback_timeout later trackId fid e)) \<and>
              map_has fid (participantsRegistry (fallback_timeout later trackId fid e)) \<and>
              outbox (fallback_timeout later trackId fid e) =
                outbox e @
                  [TRACK_PARTICIPANT_MAPPED trackId fid
                     (registry_name fid
                        (participantsRegistry (fallback_timeout later trackId fid e)))
                     later True] \<and>
              (\<not> map_has fid (participantsRegistry e) \<longrightarrow>
                 participantsRegistry (fallback_timeout later trackId fid e) =
                   participantsRegistry e @
                     [(fid, \<lparr>info_participantId = fid,
                             info_name = Some (''Participant '' @
                               dec_string (length (participantsRegistry e) + 1)),
                             info_timestamp = later, info_isFallback = True\<rparr>)]) \<and>
              (map_has fid (participantsRegistry e) \<longrightarrow>
                 participantsRegistry (fallback_timeout later trackId fid e) =
                   participantsRegistry e)) \<and>
         (\<forall>later fid e.
            \<not> map_has trackId (pendingTracks e) \<longrightarrow>
              fallback_timeout later trackId fid e = e)"
proof -
  have tm: "timing_match timestamp (participantsRegistry d) = None"
    using assms(2) by (simp add: timing_match_None TRACK_ASSIGNMENT_WINDOW_MS_def)
  have added: "on_track_added now trackId trackLabel streamId timestamp d =
           d\<lparr>pendingTracks :=
                map_set trackId
                  \<lparr>pend_timestamp = timestamp, pend_trackLabel = trackLabel,
                   pend_streamId = streamId,
                   pend_fallbackId = ''participant-'' @ take 8 trackId\<rparr>
                  (pendingTracks d),
             timers := timers d @
                [\<lparr>timer_delay = 3000, timer_trackId = trackId,
                  timer_fallbackId = ''participant-'' @ take 8 trackId\<rparr>]\<rparr>"
    by (simp add: on_track_added_def assms(1) tm Let_def TRACK_ASSIGNMENT_WINDOW_MS_def)
  have pending: "map_has trackId
      (pendingTracks (on_track_added now trackId trackLabel streamId timestamp d))"
    unfolding added by (simp add: map_has_set)
  have fired: "map_get trackId (trackToParticipant (fallback_timeout later trackId fid e)) =
                Some fid \<and>
              \<not> map_has trackId (pendingTracks (fallback_timeout later trackId fid e)) \<and>
              map_has fid (participantsRegistry (fallback_timeout later trackId fid e)) \<and>
              outbox (fallback_timeout later trackId fid e) =
                outbox e @
                  [TRACK_PARTICIPANT_MAPPED trackId fid
                     (registry_name fid
                        (participantsRegistry (fallback_timeout later trackId fid e)))
                     later True] \<and>
              (\<not> map_has fid (participantsRegistry e) \<longrightarrow>
                 participantsRegistry (fallback_timeout later trackId fid e) =
                   participantsRegistry e @
                     [(fid, \<lparr>info_participantId = fid,
                             info_name = Some (''Participant '' @
                               dec_string (length (participantsRegistry e) + 1)),
                             info_timestamp = later, info_isFallback = True\<rparr>)]) \<and>
              (map_has fid (participantsRegistry e) \<longrightarrow>
                 participantsRegistry (fallback_timeout later trackId fid e) =
                   participantsRegistry e)"
    if "map_has trackId (pendingTracks e)" for later fid e
    using that
  proof (cases "map_has fid (participantsRegistry e)")
    case True
    with that show ?thesis
      by (simp add: fallback_timeout_def Let_def map_get_set_same map_has_delete)
  next
    case False
    have "map_has fid (participantsRegistry e @ [(fid, v)])" for v
      by (simp add: map_has_def)
    with that False show ?thesis
      by (simp add: fallback_timeout_def Let_def map_get_set_same map_has_delete map_set_new)
  qed
  have idle: "fallback_timeout later trackId fid e = e"
    if "\<not> map_has trackId (pendingTracks e)" for later fid e
    using that by (simp add: fallback_timeout_def)
  show ?thesis
    using added pending fired idle by blast
qed

theorem deferred_fallback_witness:
  "direct_match '''' None
     [(''42'', \<lparr>info_participantId = ''42'', info_name = Some ''Ana'',
                info_timestamp = 0, info_isFallback = False\<rparr>)] = None \<and>
   (3000::int) \<le> \<bar>10000 - 0\<bar> \<and>
   fallback_timeout 13000 ''abcdefgh-1'' ''participant-abcdefgh''
     (on_track_added 10000 ''abcdefgh-1'' '''' None 10000
        \<lparr>participantsRegistry =
           [(''42'', \<lparr>info_participantId = ''42'', info_name = Some ''Ana'',
                      info_timestamp = 0, info_isFallback = False\<rparr>)],
         trackToParticipant = [], pendingTracks = [], timers = [], outbox = []\<rparr>) =
     \<lparr>participantsRegistry =
        [(''42'', \<lparr>info_participantId = ''42'', info_name = Some ''Ana'',
                   info_timestamp = 0, info_isFallback = False\<rparr>),
         (''participant-abcdefgh'', \<lparr>info_participantId = ''participant-abcdefgh'',
                   info_name = Some ''Participant 2'', info_timestamp = 13000,
                   info_isFallback = True\<rparr>)],
      trackToParticipant = [(''abcdefgh-1'', ''participant-abcdefgh'')],
      pendingTracks = [],
      timers = [\<lparr>timer_delay = 3000, timer_trackId = ''abcdefgh-1'',
                 timer_fallbackId = ''participant-abcdefgh''\<rparr>],
      outbox = [TRACK_PARTICIPANT_MAPPED ''abcdefgh-1'' ''participant-abcdefgh''
                  (Some ''Participant 2'') 13000 True]\<rparr>"
proof -
  define reg where "reg = [(''42'', \<lparr>info_participantId = ''42'', info_name = Some ''Ana'',
                info_timestamp = 0, info_isFallback = False\<rparr>)]"
  define d where "d = \<lparr>participantsRegistry = reg,
         trackToParticipant = [], pendingTracks = [], timers = [], outbox = []\<rparr>"
  have h1: "direct_match '''' None (participantsRegistry d) = None"
    by (simp add: d_def direct_match_def inspectTrackLabel_def)
  have h2: "\<forall>e \<in> set (participantsRegistry d). 3000 \<le> \<bar>10000 - info_timestamp (snd e)\<bar>"
    by (simp add: d_def reg_def)
  note T = deferred_fallback [OF h1 h2, of 10000 "''abcdefgh-1''"]
  have added: "on_track_added 10000 ''abcdefgh-1'' '''' None 10000 d =
      d\<lparr>pendingTracks :=
           map_set ''abcdefgh-1''
             \<lparr>pend_timestamp = 10000, pend_trackLabel = '''', pend_streamId = None,
              pend_fallbackId = ''participant-'' @ take 8 ''abcdefgh-1''\<rparr>
             (pendingTracks d),
         timers := timers d @
           [\<lparr>timer_delay = 3000, timer_trackId = ''abcdefgh-1'',
             timer_fallbackId = ''participant-'' @ take 8 ''abcdefgh-1''\<rparr>]\<rparr>"
    using T by blast
  have two: "dec_string (Suc (Suc 0)) = ''2''"
    by code_simp
  have "fallback_timeout 13000 ''abcdefgh-1'' ''participant-abcdefgh''
     (on_track_added 10000 ''abcdefgh-1'' '''' None 10000 d) =
     \<lparr>participantsRegistry =
        reg @ [(''participant-abcdefgh'', \<lparr>info_participantId = ''participant-abcdefgh'',
                   info_name = Some ''Participant 2'', info_timestamp = 13000,
                   info_isFallback = True\<rparr>)],
      trackToParticipant = [(''abcdefgh-1'', ''participant-abcdefgh'')],
      pendingTracks = [],
      timers = [\<lparr>timer_delay = 3000, timer_trackId = ''abcdefgh-1'',
                 timer_fallbackId = ''participant-abcdefgh''\<rparr>],
      outbox = [TRACK_PARTICIPANT_MAPPED ''abcdefgh-1'' ''participant-abcdefgh''
                  (Some ''Participant 2'') 13000 True]\<rparr>"
    unfolding added
    by (simp add: d_def reg_def fallback_timeout_def Let_def map_has_def map_delete_def
        registry_name_def map_get_def two)
  then show ?thesis
    using h1 unfolding d_def reg_def by simp
qed

subsection \<open>Mapping events and track-added events\<close>

lemma mapping_count_append:
  "mapping_count t (xs @ ys) = mapping_count t xs + mapping_count t ys"
  by (simp add: mapping_count_def)

lemma mapping_count_single:
  "mapping_count t [TRACK_PARTICIPANT_MAPPED trackId pid name ts fb] = (if trackId = t then 1 else 0)"
  by (simp add: mapping_count_def)

lemma assign_loop_spec:
  "assign_loop now pid joinedAt entries d assigned =
     (d\<lparr>trackToParticipant := trackToParticipant (fst (assign_loop now pid joinedAt entries d assigned)),
        outbox := outbox d @
          map (\<lambda>tid. TRACK_PARTICIPANT_MAPPED tid pid
                        (registry_name pid (participantsRegistry d)) now False)
              (window_hits joinedAt entries)\<rparr>,
      assigned @ window_hits joinedAt entries)"
proof (induction entries arbitrary: d assigned)
  case Nil
  show ?case by (simp add: window_hits_def)
next
  case (Cons e entries)
  obtain trackId trackInfo where e: "e = (trackId, trackInfo)"
    by (cases e)
  show ?case
  proof (cases "\<bar>pend_timestamp trackInfo - joinedAt\<bar> < TRACK_ASSIGNMENT_WINDOW_MS")
    case True
    define d1 where "d1 = d\<lparr>trackToParticipant := map_set trackId pid (trackToParticipant d),
                    outbox := outbox d @
                      [TRACK_PARTICIPANT_MAPPED trackId pid
                         (registry_name pid (participantsRegistry d)) now False]\<rparr>"
    have step: "assign_loop now pid joinedAt (e # entries) d assigned =
        assign_loop now pid joinedAt entries d1 (assigned @ [trackId])"
      using True by (simp add: e d1_def Let_def)
    have hits: "window_hits joinedAt (e # entries) = trackId # window_hits joinedAt entries"
      using True by (simp add: e window_hits_def)
    show ?thesis
      unfolding step hits
      by (subst Cons.IH) (simp add: d1_def)
  next
    case False
    have step: "assign_loop now pid joinedAt (e # entries) d assigned =
        assign_loop now pid joinedAt entries d assigned"
      using False by (simp add: e Let_def)
    have hits: "window_hits joinedAt (e # entries) = window_hits joinedAt entries"
      using False by (simp add: e window_hits_def)
    show ?thesis
      unfolding step hits by (rule Cons.IH)
  qed
qed

lemma map_has_delete_all:
  "map_has t (delete_all ks m) = (t \<notin> set ks \<and> map_has t m)"
  by (induction ks arbitrary: m) (auto simp: map_has_delete)

lemma distinct_delete_all:
  "distinct (map fst m) \<Longrightarrow> distinct (map fst (delete_all ks m))"
  by (induction ks arbitrary: m) (simp_all add: distinct_map_delete)

lemma mapping_count_hits:
  "mapping_count t (map (\<lambda>tid. TRACK_PARTICIPANT_MAPPED tid pid name now False) hits) =
     length (filter (\<lambda>x. x = t) hits)"
  by (induction hits) (simp_all add: mapping_count_def)

lemma hits_distinct:
  "distinct (map fst entries) \<Longrightarrow> distinct (window_hits joinedAt entries)"
  by (simp add: window_hits_def distinct_map_filter)

lemma hits_subset: "t \<in> set (window_hits joinedAt entries) \<Longrightarrow> map_has t entries"
  by (auto simp: window_hits_def map_has_def)

lemma filter_eq_distinct:
  "distinct xs \<Longrightarrow> length (filter (\<lambda>x. x = t) xs) = (if t \<in> set xs then 1 else 0)"
  by (induction xs) auto

lemma assignPendingTracks_bound:
  assumes "distinct (map fst (pendingTracks d))"
  shows "distinct (map fst (pendingTracks (assignPendingTracks now pid joinedAt d))) \<and>
         mapping_count t (outbox (assignPendingTracks now pid joinedAt d)) +
           pending_weight t (assignPendingTracks now pid joinedAt d) \<le>
         mapping_count t (outbox d) + pending_weight t d"
proof -
  define hits where "hits = window_hits joinedAt (pendingTracks d)"
  define d1 where "d1 = fst (assign_loop now pid joinedAt (pendingTracks d) d [])"
  have loop: "assign_loop now pid joinedAt (pendingTracks d) d [] =
     (d\<lparr>trackToParticipant := trackToParticipant d1,
        outbox := outbox d @
          map (\<lambda>tid. TRACK_PARTICIPANT_MAPPED tid pid
                        (registry_name pid (participantsRegistry d)) now False) hits\<rparr>,
      hits)"
    using assign_loop_spec [of now pid joinedAt "pendingTracks d" d "[]"]
    by (simp add: hits_def d1_def)
  have res: "assignPendingTracks now pid joinedAt d =
     d\<lparr>trackToParticipant := trackToParticipant d1,
        outbox := outbox d @
          map (\<lambda>tid. TRACK_PARTICIPANT_MAPPED tid pid
                        (registry_name pid (participantsRegistry d)) now False) hits,
        pendingTracks := delete_all hits (pendingTracks d)\<rparr>"
    by (simp add: assignPendingTracks_def loop)
  have dist: "distinct hits"
    unfolding hits_def using assms by (rule hits_distinct)
  have cnt: "mapping_count t (outbox (assignPendingTracks now pid joinedAt d)) =
      mapping_count t (outbox d) + (if t \<in> set hits then 1 else 0)"
    unfolding res
    by (simp add: mapping_count_append mapping_count_hits filter_eq_distinct [OF dist])
  have pw: "pending_weight t (assignPendingTracks now pid joinedAt d) =
      (if t \<notin> set hits \<and> map_has t (pendingTracks d) then 1 else 0)"
    unfolding res by (simp add: pending_weight_def map_has_delete_all)
  have sub: "map_has t (pendingTracks d)" if "t \<in> set hits"
    using that unfolding hits_def by (rule hits_subset)
  have "distinct (map fst (pendingTracks (assignPendingTracks now pid joinedAt d)))"
    unfolding res using assms by (simp add: distinct_delete_all)
  moreover have "mapping_count t (outbox (assignPendingTracks now pid joinedAt d)) +
           pending_weight t (assignPendingTracks now pid joinedAt d) \<le>
         mapping_count t (outbox d) + pending_weight t d"
    unfolding cnt pw using sub by (auto simp: pending_weight_def)
  ultimately show ?thesis by simp
qed

lemma detector_step_bound:
  assumes "distinct (map fst (pendingTracks d))"
  shows "distinct (map fst (pendingTracks (detector_step e d))) \<and>
         mapping_count t (outbox (detector_step e d)) + pending_weight t (detector_step e d) \<le>
         mapping_count t (outbox d) + pending_weight t d + (if is_added t e then 1 else 0)"
proof (cases e)
  case (TrackAdded now trackId trackLabel streamId timestamp)
  show ?thesis
    unfolding TrackAdded using assms
    by (auto simp: on_track_added_def Let_def mapping_count_append mapping_count_single
        pending_weight_def map_has_set distinct_map_set
        split: option.splits prod.splits)
next
  case (TrackRemoved trackId)
  show ?thesis
    unfolding TrackRemoved using assms
    by (auto simp: on_track_removed_def Let_def pending_weight_def map_has_delete
        distinct_map_delete split: option.splits)
next
  case (ParticipantDetected now info)
  show ?thesis
  proof (cases "map_has (info_participantId info) (participantsRegistry d)")
    case True
    then show ?thesis
      unfolding ParticipantDetected using assms by (simp add: participant_detected_def)
  next
    case False
    define d1 where "d1 = d\<lparr>participantsRegistry :=
                   map_set (info_participantId info) info (participantsRegistry d),
                 outbox := outbox d @
                   [MEET_PARTICIPANT_JOINED (info_participantId info) (info_name info)
                      (info_timestamp info)]\<rparr>"
    have step: "detector_step e d =
        assignPendingTracks now (info_participantId info) (info_timestamp info) d1"
      unfolding ParticipantDetected using False by (simp add: participant_detected_def d1_def)
    have d1: "distinct (map fst (pendingTracks d1))"
      "mapping_count t (outbox d1) = mapping_count t (outbox d)"
      "pending_weight t d1 = pending_weight t d"
      using assms by (simp_all add: d1_def mapping_count_def pending_weight_def)
    show ?thesis
      unfolding step
      using assignPendingTracks_bound [OF d1(1), where t = t and now = now
          and pid = "info_participantId info" and joinedAt = "info_timestamp info"] d1(2,3)
      by simp
  qed
next
  case (TimerFired now i)
  show ?thesis
    unfolding TimerFired using assms
    by (auto simp: fallback_timeout_def Let_def mapping_count_append mapping_count_single
        pending_weight_def map_has_delete distinct_map_delete)
qed

lemma detector_run_bound:
  assumes "distinct (map fst (pendingTracks d))"
  shows "mapping_count t (outbox (detector_run es d)) + pending_weight t (detector_run es d) \<le>
         mapping_count t (outbox d) + pending_weight t d + added_count t es"
  using assms
proof (induction es arbitrary: d)
  case Nil
  show ?case by (simp add: added_count_def)
next
  case (Cons e es)
  have s: "distinct (map fst (pendingTracks (detector_step e d)))"
    and b: "mapping_count t (outbox (detector_step e d)) + pending_weight t (detector_step e d) \<le>
         mapping_count t (outbox d) + pending_weight t d + (if is_added t e then 1 else 0)"
    using detector_step_bound [OF Cons.prems, where e = e and t = t] by simp_all
  have "mapping_count t (outbox (detector_run es (detector_step e d))) +
          pending_weight t (detector_run es (detector_step e d)) \<le>
        mapping_count t (outbox (detector_step e d)) + pending_weight t (detector_step e d) +
          added_count t es"
    by (rule Cons.IH [OF s])
  also have "\<dots> \<le> mapping_count t (outbox d) + pending_weight t d +
      (if is_added t e then 1 else 0) + added_count t es"
    using b by simp
  also have "\<dots> = mapping_count t (outbox d) + pending_weight t d + added_count t (e # es)"
    by (simp add: added_count_def)
  finally show ?case by simp
qed

text \<open>
  C8 as stated fails on a replay: the track \<^verbatim>\<open>t1\<close> is mapped by its label and one
  mapping event is posted; the start of the multi-track capture then posts a track-added
  message for every audio track of the interceptor's registry, \<^verbatim>\<open>t1\<close> among them, and
  the engine, which keeps no record of mapped tracks, posts a second mapping event.
\<close>

theorem replay_emits_again_counterexample:
  "map_get ''t1''
     (trackToParticipant (detector_run
        [ParticipantDetected 0 \<lparr>info_participantId = ''42'', info_name = Some ''Ana'',
           info_timestamp = 0, info_isFallback = False\<rparr>,
         TrackAdded 100 ''t1'' ''participant-42'' None 100] detector_init)) = Some ''42'' \<and>
   mapping_count ''t1''
     (outbox (detector_run
        [ParticipantDetected 0 \<lparr>info_participantId = ''42'', info_name = Some ''Ana'',
           info_timestamp = 0, info_isFallback = False\<rparr>,
         TrackAdded 100 ''t1'' ''participant-42'' None 100] detector_init)) = 1 \<and>
   sup_outbox (on_start_multitrack 20000
     (Some [(''t1'', \<lparr>ti_trackId = ''t1'', ti_kind = ''audio'', ti_label = ''participant-42'',
                      ti_streamId = None, ti_capturedAt = 100\<rparr>)])
     (Some 7) supervisor_init) = [WEBRTC_TRACK_ADDED ''t1'' ''participant-42'' None 100] \<and>
   mapping_count ''t1''
     (outbox (deliver_added 20001
        (sup_outbox (on_start_multitrack 20000
           (Some [(''t1'', \<lparr>ti_trackId = ''t1'', ti_kind = ''audio'',
                            ti_label = ''participant-42'', ti_streamId = None,
                            ti_capturedAt = 100\<rparr>)])
           (Some 7) supervisor_init))
        (detector_run
           [ParticipantDetected 0 \<lparr>info_participantId = ''42'', info_name = Some ''Ana'',
              info_timestamp = 0, info_isFallback = False\<rparr>,
            TrackAdded 100 ''t1'' ''participant-42'' None 100] detector_init))) = 2"
proof -
  have i: "inspectTrackLabel ''participant-42'' None = Some ''42''"
    by (rule inspect_example)
  have s: "sup_outbox (on_start_multitrack 20000
     (Some [(''t1'', \<lparr>ti_trackId = ''t1'', ti_kind = ''audio'', ti_label = ''participant-42'',
                      ti_streamId = None, ti_capturedAt = 100\<rparr>)])
     (Some 7) supervisor_init) = [WEBRTC_TRACK_ADDED ''t1'' ''participant-42'' None 100]"
    by (simp add: on_start_multitrack_def supervisor_init_def Let_def)
  have d: "detector_run
        [ParticipantDetected 0 \<lparr>info_participantId = ''42'', info_name = Some ''Ana'',
           info_timestamp = 0, info_isFallback = False\<rparr>,
         TrackAdded 100 ''t1'' ''participant-42'' None 100] detector_init =
     \<lparr>participantsRegistry =
        [(''42'', \<lparr>info_participantId = ''42'', info_name = Some ''Ana'',
                   info_timestamp = 0, info_isFallback = False\<rparr>)],
      trackToParticipant = [(''t1'', ''42'')], pendingTracks = [], timers = [],
      outbox = [MEET_PARTICIPANT_JOINED ''42'' (Some ''Ana'') 0,
                TRACK_PARTICIPANT_MAPPED ''t1'' ''42'' (Some ''Ana'') 100 False]\<rparr>"
    by (simp add: detector_init_def participant_detected_def assignPendingTracks_def
        on_track_added_def direct_match_def i map_has_def registry_name_def map_get_def)
  show ?thesis
    unfolding s d
    by (simp add: on_track_added_def direct_match_def i map_has_def registry_name_def
        map_get_def mapping_count_def)
qed

text \<open>
  C8, amended: for every track the engine posts at most one mapping event for each
  track-added event it has handled for that track, whichever way the mapping is made
  (direct, timing or fallback) and whatever else happens: over any sequence of events
  from the start, the mapping events of a track are at most as many as its track-added
  events. One track-added event, and one run of a fallback timer, posts at most one.
\<close>

theorem mapping_events_bounded:
  "mapping_count t (outbox (detector_run es detector_init)) \<le> added_count t es \<and>
   mapping_count t (outbox (on_track_added now trackId trackLabel streamId timestamp d)) \<le>
     mapping_count t (outbox d) + 1 \<and>
   mapping_count t (outbox (fallback_timeout now trackId fid d)) \<le>
     mapping_count t (outbox d) + 1"
proof -
  have init: "distinct (map fst (pendingTracks detector_init))"
    "mapping_count t (outbox detector_init) = 0" "pending_weight t detector_init = 0"
    by (simp_all add: detector_init_def mapping_count_def pending_weight_def map_has_def)
  have run: "mapping_count t (outbox (detector_run es detector_init)) \<le> added_count t es"
    using detector_run_bound [OF init(1), where t = t and es = es] init(2,3) by simp
  have added: "mapping_count t (outbox (on_track_added now trackId trackLabel streamId timestamp d)) \<le>
     mapping_count t (outbox d) + 1"
    by (auto simp: on_track_added_def Let_def mapping_count_append mapping_count_single
        split: option.splits prod.splits)
  have fired: "mapping_count t (outbox (fallback_timeout now trackId fid d)) \<le>
     mapping_count t (outbox d) + 1"
    by (auto simp: fallback_timeout_def Let_def mapping_count_append mapping_count_single)
  show ?thesis
    using run added fired by blast
qed

theorem mapping_events_bounded_witness:
  "mapping_count ''t9''
     (outbox (detector_run
        [TrackAdded 100 ''t9'' '''' None 100,
         ParticipantDetected 200 \<lparr>info_participantId = ''42'', info_name = Some ''Ana'',
           info_timestamp = 150, info_isFallback = False\<rparr>,
         TimerFired 3100 0] detector_init)) = 1 \<and>
   added_count ''t9''
     [TrackAdded 100 ''t9'' '''' None 100,
      ParticipantDetected 200 \<lparr>info_participantId = ''42'', info_name = Some ''Ana'',
        info_timestamp = 150, info_isFallback = False\<rparr>,
      TimerFired 3100 0] = 1"
proof -
  define es where "es = [TrackAdded 100 ''t9'' '''' None 100,
      ParticipantDetected 200 \<lparr>info_participantId = ''42'', info_name = Some ''Ana'',
        info_timestamp = 150, info_isFallback = False\<rparr>,
      TimerFired 3100 0]"
  have a: "added_count ''t9'' es = 1"
    by (simp add: es_def added_count_def)
  have le: "mapping_count ''t9'' (outbox (detector_run es detector_init)) \<le> 1"
    using mapping_events_bounded [of "''t9''" es] a by simp
  have ge: "1 \<le> mapping_count ''t9'' (outbox (detector_run es detector_init))"
    unfolding es_def
    by (simp add: detector_init_def participant_detected_def assignPendingTracks_def
        on_track_added_def direct_match_def inspectTrackLabel_def map_has_def
        registry_name_def map_get_def mapping_count_def TRACK_ASSIGNMENT_WINDOW_MS_def
        Let_def fallback_timeout_def map_delete_def)
  show ?thesis
    using a le ge unfolding es_def by simp
qed

section \<open>Verification of the processor supervisor\<close>

lemma processors_of_length:
  "distinct (map fst (audioProcessors s)) \<Longrightarrow> length (processors_of pid s) \<le> 1"
proof -
  assume d: "distinct (map fst (audioProcessors s))"
  have "length (filter (\<lambda>e. fst e = pid) m) \<le> 1" if "distinct (map fst m)"
    for m :: "(string \<times> processor) list"
    using that by (induction m) (force simp: filter_empty_conv)+
  from this [OF d] show ?thesis
    by (simp add: processors_of_def)
qed

lemma processors_of_present:
  "map_has pid (audioProcessors s) \<Longrightarrow> 1 \<le> length (processors_of pid s)"
proof -
  assume "map_has pid (audioProcessors s)"
  then obtain e where "e \<in> set (audioProcessors s)" and "fst e = pid"
    by (auto simp: map_has_def)
  then have "filter (\<lambda>e. fst e = pid) (audioProcessors s) \<noteq> []"
    by (auto simp: filter_empty_conv)
  then show ?thesis
    by (cases "filter (\<lambda>e. fst e = pid) (audioProcessors s)") (simp_all add: processors_of_def)
qed

lemma supervisor_step_distinct:
  assumes "distinct (map fst (audioProcessors s))"
  shows "distinct (map fst (audioProcessors (supervisor_step e s)))"
proof (cases e)
  case (Mapped registry trackId pid name)
  show ?thesis
    unfolding Mapped using assms
    by (auto simp: on_track_mapped_def handleRemoteTrack_def distinct_map_set
        split: option.splits)
next
  case (Removed trackId)
  show ?thesis
    unfolding Removed using assms
    by (auto simp: on_supervisor_track_removed_def distinct_map_delete split: option.splits)
next
  case (StartMultitrack now registry tabId)
  show ?thesis
    unfolding StartMultitrack using assms
    by (auto simp: on_start_multitrack_def Let_def split: option.splits)
next
  case StopMultitrack
  show ?thesis
    unfolding StopMultitrack by (simp add: on_stop_multitrack_def)
qed

lemma supervisor_run_distinct:
  "distinct (map fst (audioProcessors s)) \<Longrightarrow>
   distinct (map fst (audioProcessors (supervisor_run es s)))"
  by (induction es arbitrary: s) (simp_all add: supervisor_step_distinct)

lemma processors_of_new:
  assumes "\<not> map_has pid (audioProcessors s)"
  shows "processors_of pid (s\<lparr>audioProcessors := map_set pid p (audioProcessors s)\<rparr>) = [p]"
proof -
  have "filter (\<lambda>e. fst e = pid) (audioProcessors s) = []"
    using assms by (auto simp: filter_empty_conv map_has_def)
  then show ?thesis
    by (simp add: processors_of_def map_set_new [OF assms])
qed

text \<open>
  C7: at most one audio processor is active for a participant id, after any sequence of
  events of the supervisor; a correlation event for a participant that has a processor
  in the active set changes nothing, so that the processor keeps its track; and two
  tracks of the interceptor's registry that are correlated to the same participant id
  leave exactly one processor for it, bound to the first track when there was none
  before.
\<close>

theorem one_processor_per_participant:
  "length (processors_of pid (supervisor_run es supervisor_init)) \<le> 1 \<and>
   (map_has pid (audioProcessors s) \<longrightarrow>
      on_track_mapped registry trackId pid name s = s) \<and>
   (distinct (map fst (audioProcessors s)) \<and>
    map_get t1 tracks = Some i1 \<and> map_get t2 tracks = Some i2 \<longrightarrow>
      length (processors_of pid
        (on_track_mapped (Some tracks) t2 pid n2
           (on_track_mapped (Some tracks) t1 pid n1 s))) = 1 \<and>
      (\<not> map_has pid (audioProcessors s) \<longrightarrow>
         map track (processors_of pid
           (on_track_mapped (Some tracks) t2 pid n2
              (on_track_mapped (Some tracks) t1 pid n1 s))) = [ti_trackId i1]) \<and>
      (map_has pid (audioProcessors s) \<longrightarrow>
         on_track_mapped (Some tracks) t2 pid n2
           (on_track_mapped (Some tracks) t1 pid n1 s) = s))"
proof -
  have "distinct (map fst (audioProcessors supervisor_init))"
    by (simp add: supervisor_init_def)
  then have "distinct (map fst (audioProcessors (supervisor_run es supervisor_init)))"
    by (rule supervisor_run_distinct)
  then have atmost: "length (processors_of pid (supervisor_run es supervisor_init)) \<le> 1"
    by (rule processors_of_length)
  have ignored: "on_track_mapped r tid pid nm s' = s'"
    if "map_has pid (audioProcessors s')" for r tid nm s'
    using that by (simp add: on_track_mapped_def handleRemoteTrack_def split: option.splits)
  have two: "length (processors_of pid
        (on_track_mapped (Some tracks) t2 pid n2
           (on_track_mapped (Some tracks) t1 pid n1 s))) = 1 \<and>
      (\<not> map_has pid (audioProcessors s) \<longrightarrow>
         map track (processors_of pid
           (on_track_mapped (Some tracks) t2 pid n2
              (on_track_mapped (Some tracks) t1 pid n1 s))) = [ti_trackId i1]) \<and>
      (map_has pid (audioProcessors s) \<longrightarrow>
         on_track_mapped (Some tracks) t2 pid n2
           (on_track_mapped (Some tracks) t1 pid n1 s) = s)"
    if d: "distinct (map fst (audioProcessors s))"
      and g1: "map_get t1 tracks = Some i1" and g2: "map_get t2 tracks = Some i2"
  proof (cases "map_has pid (audioProcessors s)")
    case True
    have same: "on_track_mapped (Some tracks) t2 pid n2
           (on_track_mapped (Some tracks) t1 pid n1 s) = s"
      using True by (simp add: ignored)
    have "length (processors_of pid s) = 1"
      using processors_of_length [OF d, of pid] processors_of_present [OF True] by simp
    then show ?thesis
      using True same by simp
  next
    case False
    define s1 where
      "s1 = s\<lparr>audioProcessors := map_set pid (new_processor pid n1 (ti_trackId i1))
                                    (audioProcessors s)\<rparr>"
    have first: "on_track_mapped (Some tracks) t1 pid n1 s = s1"
      using False g1 by (simp add: on_track_mapped_def handleRemoteTrack_def s1_def)
    have has: "map_has pid (audioProcessors s1)"
      by (simp add: s1_def map_has_set)
    have second: "on_track_mapped (Some tracks) t2 pid n2 s1 = s1"
      using has by (rule ignored)
    have procs: "processors_of pid s1 = [new_processor pid n1 (ti_trackId i1)]"
      unfolding s1_def by (rule processors_of_new [OF False])
    show ?thesis
      using False by (simp add: first second procs new_processor_def)
  qed
  show ?thesis
    using atmost ignored two by blast
qed

theorem one_processor_per_participant_witness:
  "map_has ''42'' (audioProcessors
     (on_track_mapped
        (Some [(''t1'', \<lparr>ti_trackId = ''t1'', ti_kind = ''audio'', ti_label = ''a'',
                         ti_streamId = None, ti_capturedAt = 5\<rparr>),
               (''t2'', \<lparr>ti_trackId = ''t2'', ti_kind = ''audio'', ti_label = ''b'',
                         ti_streamId = None, ti_capturedAt = 6\<rparr>)])
        ''t1'' ''42'' (Some ''Ana'') supervisor_init)) \<and>
   map track (processors_of ''42''
     (supervisor_run
        [Mapped (Some [(''t1'', \<lparr>ti_trackId = ''t1'', ti_kind = ''audio'', ti_label = ''a'',
                         ti_streamId = None, ti_capturedAt = 5\<rparr>),
               (''t2'', \<lparr>ti_trackId = ''t2'', ti_kind = ''audio'', ti_label = ''b'',
                         ti_streamId = None, ti_capturedAt = 6\<rparr>)])
           ''t1'' ''42'' (Some ''Ana''),
         Mapped (Some [(''t1'', \<lparr>ti_trackId = ''t1'', ti_kind = ''audio'', ti_label = ''a'',
                         ti_streamId = None, ti_capturedAt = 5\<rparr>),
               (''t2'', \<lparr>ti_trackId = ''t2'', ti_kind = ''audio'', ti_label = ''b'',
                         ti_streamId = None, ti_capturedAt = 6\<rparr>)])
           ''t2'' ''42'' (Some ''Ana'')]
        supervisor_init)) = [''t1'']"
proof -
  define tracks where "tracks =
    [(''t1'', \<lparr>ti_trackId = ''t1'', ti_kind = ''audio'', ti_label = ''a'',
               ti_streamId = None, ti_capturedAt = 5\<rparr>),
     (''t2'', \<lparr>ti_trackId = ''t2'', ti_kind = ''audio'', ti_label = ''b'',
               ti_streamId = None, ti_capturedAt = 6\<rparr>)]"
  have d: "distinct (map fst (audioProcessors supervisor_init))"
    and n: "\<not> map_has ''42'' (audioProcessors supervisor_init)"
    by (simp_all add: supervisor_init_def map_has_def)
  have g1: "map_get ''t1'' tracks = Some \<lparr>ti_trackId = ''t1'', ti_kind = ''audio'',
      ti_label = ''a'', ti_streamId = None, ti_capturedAt = 5\<rparr>"
    and g2: "map_get ''t2'' tracks = Some \<lparr>ti_trackId = ''t2'', ti_kind = ''audio'',
      ti_label = ''b'', ti_streamId = None, ti_capturedAt = 6\<rparr>"
    by (simp_all add: tracks_def map_get_def)
  have has: "map_has ''42'' (audioProcessors
     (on_track_mapped (Some tracks) ''t1'' ''42'' (Some ''Ana'') supervisor_init))"
    using n g1 by (simp add: on_track_mapped_def handleRemoteTrack_def map_has_set)
  have "map track (processors_of ''42''
      (on_track_mapped (Some tracks) ''t2'' ''42'' (Some ''Ana'')
         (on_track_mapped (Some tracks) ''t1'' ''42'' (Some ''Ana'') supervisor_init))) =
      [ti_trackId \<lparr>ti_trackId = ''t1'', ti_kind = ''audio'',
      ti_label = ''a'', ti_streamId = None, ti_capturedAt = 5\<rparr>]"
    using one_processor_per_participant [where s = supervisor_init and pid = "''42''"
        and tracks = tracks and ?t1.0 = "''t1''" and ?t2.0 = "''t2''"
        and ?n1.0 = "Some ''Ana''" and ?n2.0 = "Some ''Ana''"] d n g1 g2
    by blast
  then show ?thesis
    using has unfolding tracks_def by simp
qed

section \<open>Verification of the relay connections\<close>

subsection \<open>Frames are kept in order\<close>
























subsection \<open>Positions in the maps are valid\<close>



















subsection \<open>The queue of a connection\<close>



text \<open>
  C10: a send request for a tab and participant for which the relay holds no connection
  state leaves the worker exactly as it was: nothing is transmitted or queued and no
  connection is made. The same holds in single-stream mode for a tab with no state, for
  a request without a tab id, and for \<^verbatim>\<open>sendPCM\<close> of the offscreen capture when there is no
  socket.
\<close>

theorem send_without_connection_discarded:
  "(participant_state w tab pid = None \<and> pid \<noteq> [] \<longrightarrow>
      relay_step accepts (PortMessage (AUDIO_WS_SEND (Some tab) (Some pid) buffer declared)) w
        = w) \<and>
   (truthy participant = None \<and> map_get tab (wsByTab w) = None \<longrightarrow>
      relay_step accepts (PortMessage (AUDIO_WS_SEND (Some tab) participant buffer declared)) w
        = w) \<and>
   relay_step accepts (PortMessage (AUDIO_WS_SEND None participant buffer declared)) w = w \<and>
   (off_ws s = None \<longrightarrow> sendPCM_offscreen frame s = s)"
proof -
  have multi: "relay_step accepts
      (PortMessage (AUDIO_WS_SEND (Some tab) (Some pid) buffer declared)) w = w"
    if "participant_state w tab pid = None" and "pid \<noteq> []"
    using that by (simp add: on_send_def Let_def split: option.splits)
  have legacy: "relay_step accepts
      (PortMessage (AUDIO_WS_SEND (Some tab) participant buffer declared)) w = w"
    if "truthy participant = None" and "map_get tab (wsByTab w) = None"
    using that by (simp add: on_send_def Let_def split: option.splits)
  have notab: "relay_step accepts
      (PortMessage (AUDIO_WS_SEND None participant buffer declared)) w = w"
    by (simp add: on_send_def)
  have off: "sendPCM_offscreen frame s = s" if "off_ws s = None"
    using that by (simp add: sendPCM_offscreen_def)
  show ?thesis
    using multi legacy notab off by blast
qed

text \<open>
  A send before any open, and a send after the connection was closed and its state
  removed.
\<close>

theorem send_without_connection_discarded_witness:
  "participant_state relay_init 7 ''42'' = None \<and>
   relay_step (\<lambda>u. True)
     (PortMessage (AUDIO_WS_SEND (Some 7) (Some ''42'') (ArrayBuf [1, 2]) 2)) relay_init =
     relay_init \<and>
   participant_state
     (relay_run (\<lambda>u. True)
        [PortMessage (AUDIO_WS_OPEN (Some 7) (Some ''42'') ''ws://h/in''),
         PortMessage (AUDIO_WS_CLOSE (Some 7) (Some ''42''))] relay_init) 7 ''42'' = None \<and>
   relay_run (\<lambda>u. True)
        [PortMessage (AUDIO_WS_OPEN (Some 7) (Some ''42'') ''ws://h/in''),
         PortMessage (AUDIO_WS_CLOSE (Some 7) (Some ''42'')),
         PortMessage (AUDIO_WS_SEND (Some 7) (Some ''42'') (ArrayBuf [1, 2]) 2)] relay_init =
     relay_run (\<lambda>u. True)
        [PortMessage (AUDIO_WS_OPEN (Some 7) (Some ''42'') ''ws://h/in''),
         PortMessage (AUDIO_WS_CLOSE (Some 7) (Some ''42''))] relay_init \<and>
   sendPCM_offscreen [1, 2] \<lparr>off_ws = None, wsReady = False, pendingBinaryQueue = []\<rparr> =
     \<lparr>off_ws = None, wsReady = False, pendingBinaryQueue = []\<rparr>"
proof -
  define acc where "acc = (\<lambda>u::string. True)"
  define w2 where "w2 = relay_run acc
        [PortMessage (AUDIO_WS_OPEN (Some 7) (Some ''42'') ''ws://h/in''),
         PortMessage (AUDIO_WS_CLOSE (Some 7) (Some ''42''))] relay_init"
  have n0: "participant_state relay_init 7 ''42'' = None"
    by code_simp
  have n2: "participant_state w2 7 ''42'' = None"
    unfolding w2_def acc_def by code_simp
  have ne: "''42'' \<noteq> []"
    by simp
  have s0: "relay_step acc
     (PortMessage (AUDIO_WS_SEND (Some 7) (Some ''42'') (ArrayBuf [1, 2]) 2)) relay_init =
     relay_init"
    using send_without_connection_discarded [where w = relay_init and tab = 7
        and pid = "''42''" and accepts = acc] n0 ne by blast
  have s2: "relay_step acc
     (PortMessage (AUDIO_WS_SEND (Some 7) (Some ''42'') (ArrayBuf [1, 2]) 2)) w2 = w2"
    using send_without_connection_discarded [where w = w2 and tab = 7
        and pid = "''42''" and accepts = acc] n2 ne by blast
  have run: "relay_run acc
        [PortMessage (AUDIO_WS_OPEN (Some 7) (Some ''42'') ''ws://h/in''),
         PortMessage (AUDIO_WS_CLOSE (Some 7) (Some ''42'')),
         PortMessage (AUDIO_WS_SEND (Some 7) (Some ''42'') (ArrayBuf [1, 2]) 2)] relay_init =
      relay_step acc
        (PortMessage (AUDIO_WS_SEND (Some 7) (Some ''42'') (ArrayBuf [1, 2]) 2)) w2"
    unfolding w2_def by simp
  have off: "sendPCM_offscreen [1, 2] \<lparr>off_ws = None, wsReady = False, pendingBinaryQueue = []\<rparr> =
     \<lparr>off_ws = None, wsReady = False, pendingBinaryQueue = []\<rparr>"
    using send_without_connection_discarded
      [where s = "\<lparr>off_ws = None, wsReady = False, pendingBinaryQueue = []\<rparr>"]
    by simp
  show ?thesis
    using n0 s0 n2 off unfolding run s2 w2_def [symmetric] acc_def [symmetric]
    by (simp add: w2_def [symmetric])
qed

end
